theory Spec2Isabelle
  imports Main "HOL-Library.Word"
begin

unbundle bit_operations_syntax

section \<open>The CD4067 multiplexer driver\<close>

subsection \<open>Data model\<close>

text \<open>
  The driver reads up to 16 analog inputs through one ADC channel: four select
  lines S0 to S3 carry the number of the input, an active-low enable line
  switches the multiplexer on.

  Pointers to peripherals (\<open>GPIO_TypeDef *\<close>, \<open>ADC_HandleTypeDef *\<close>) are 32-bit
  addresses. A pointer argument that the driver tests against \<open>NULL\<close> is an
  \<open>option\<close>; a pointer it dereferences without a test is passed by value, so a
  function that does not test its handle is modelled on handles that exist.
  A function that can block for ever returns an \<open>option\<close>, \<open>None\<close> when it does
  not return.
\<close>

type_synonym GPIO_TypeDef_ptr = "32 word"
type_synonym ADC_HandleTypeDef_ptr = "32 word"

datatype GPIO_PinState = GPIO_PIN_RESET | GPIO_PIN_SET

datatype HAL_StatusTypeDef = HAL_OK | HAL_ERROR | HAL_BUSY | HAL_TIMEOUT

record MUX_Config_t =
  s0_port :: GPIO_TypeDef_ptr
  s0_pin :: "16 word"
  s1_port :: GPIO_TypeDef_ptr
  s1_pin :: "16 word"
  s2_port :: GPIO_TypeDef_ptr
  s2_pin :: "16 word"
  s3_port :: GPIO_TypeDef_ptr
  s3_pin :: "16 word"
  en_port :: GPIO_TypeDef_ptr
  en_pin :: "16 word"
  hadc :: ADC_HandleTypeDef_ptr
  adc_channel :: "32 word"

record MUX_Handle_t =
  config :: MUX_Config_t
  current_channel :: "8 word"
  is_enabled :: bool
  settling_time_us :: "16 word"

definition MUX_CHANNELS :: int where
  "MUX_CHANNELS = 16"

definition MUX_ACTIVE_CHANNELS :: int where
  "MUX_ACTIVE_CHANNELS = 14"

subsection \<open>The hardware abstraction layer\<close>

text \<open>
  The STM32 HAL is a library outside this repository. Every call the driver
  makes to it is recorded, oldest first, in \<open>hal_log\<close>; \<open>nop_count\<close> counts the
  \<open>__NOP()\<close> instructions executed by the busy-wait; \<open>SystemCoreClock\<close> is the
  CMSIS variable of this name, which the driver only reads. The ADC is an
  environment the driver does not control: \<open>adc_ready\<close> tells, from the calls
  made so far, whether the conversion being polled ever completes, and
  \<open>adc_data\<close> is the content of the data register read by \<open>HAL_ADC_GetValue\<close>.
\<close>

datatype hal_call =
    GPIO_WritePin GPIO_TypeDef_ptr "16 word" GPIO_PinState
  | ADC_Start ADC_HandleTypeDef_ptr
  | ADC_PollForConversion ADC_HandleTypeDef_ptr "32 word"
  | ADC_GetValue ADC_HandleTypeDef_ptr
  | ADC_Stop ADC_HandleTypeDef_ptr

record hw =
  SystemCoreClock :: "32 word"
  hal_log :: "hal_call list"
  nop_count :: nat
  adc_ready :: "hal_call list \<Rightarrow> bool"
  adc_data :: "hal_call list \<Rightarrow> 32 word"

text \<open>
  Modelled from the spec: the GPIO subsystem is an abstract, synchronous
  "set pin level" operation on a line identified by a (port, pin) pair.
\<close>

definition HAL_GPIO_WritePin :: "GPIO_TypeDef_ptr \<Rightarrow> 16 word \<Rightarrow> GPIO_PinState \<Rightarrow> hw \<Rightarrow> hw" where
  "HAL_GPIO_WritePin port pin st w = w\<lparr>hal_log := hal_log w @ [GPIO_WritePin port pin st]\<rparr>"

text \<open>
  Modelled from the spec: the ADC subsystem is the sequence start conversion,
  poll until ready (blocking, no deadline), read converted value, stop. A poll
  that never sees the conversion complete does not return: \<open>None\<close>.
\<close>

definition HAL_MAX_DELAY :: "32 word" where
  "HAL_MAX_DELAY = 0xFFFFFFFF"

definition HAL_ADC_Start :: "ADC_HandleTypeDef_ptr \<Rightarrow> hw \<Rightarrow> hw" where
  "HAL_ADC_Start a w = w\<lparr>hal_log := hal_log w @ [ADC_Start a]\<rparr>"

definition HAL_ADC_PollForConversion :: "ADC_HandleTypeDef_ptr \<Rightarrow> 32 word \<Rightarrow> hw \<Rightarrow> hw option" where
  "HAL_ADC_PollForConversion a timeout w =
     (if adc_ready w (hal_log w)
      then Some (w\<lparr>hal_log := hal_log w @ [ADC_PollForConversion a timeout]\<rparr>)
      else None)"

definition HAL_ADC_GetValue :: "ADC_HandleTypeDef_ptr \<Rightarrow> hw \<Rightarrow> 32 word \<times> hw" where
  "HAL_ADC_GetValue a w = (adc_data w (hal_log w), w\<lparr>hal_log := hal_log w @ [ADC_GetValue a]\<rparr>)"

definition HAL_ADC_Stop :: "ADC_HandleTypeDef_ptr \<Rightarrow> hw \<Rightarrow> hw" where
  "HAL_ADC_Stop a w = w\<lparr>hal_log := hal_log w @ [ADC_Stop a]\<rparr>"

definition NOP :: "hw \<Rightarrow> hw" where
  "NOP w = w\<lparr>nop_count := Suc (nop_count w)\<rparr>"

text \<open>
  A line is a (port, pin) pair. The level a line was last driven to is the
  state of the latest \<open>GPIO_WritePin\<close> in the log that names this pair.
\<close>

type_synonym gpio_line = "GPIO_TypeDef_ptr \<times> 16 word"

fun line_level :: "hal_call list \<Rightarrow> gpio_line \<Rightarrow> GPIO_PinState option" where
  "line_level [] l = None"
| "line_level (c # cs) l =
     (case line_level cs l of
        Some st \<Rightarrow> Some st
      | None \<Rightarrow>
          (case c of
             GPIO_WritePin port pin st \<Rightarrow> if (port, pin) = l then Some st else None
           | _ \<Rightarrow> None))"

subsection \<open>The driver\<close>

text \<open>
  \<open>while(cycles--) { __NOP(); }\<close>: the test reads the counter, the decrement
  follows, the body runs when the value read was not zero.
\<close>

function delay_loop :: "32 word \<Rightarrow> hw \<Rightarrow> hw" where
  "delay_loop cycles w = (if cycles \<noteq> 0 then delay_loop (cycles - 1) (NOP w) else w)"
  by pat_completeness auto
termination
  by (relation "measure (\<lambda>(cycles, w). unat cycles)")
    (auto simp: unat_minus_one unat_gt_0 word_greater_zero_iff)

definition delay_us :: "16 word \<Rightarrow> hw \<Rightarrow> hw" where
  "delay_us us w =
     (let cycles = ((SystemCoreClock w div 1000000) * ucast us) div 3
      in delay_loop cycles w)"

definition MUX_Init :: "MUX_Handle_t option \<Rightarrow> MUX_Config_t option \<Rightarrow> hw
    \<Rightarrow> HAL_StatusTypeDef \<times> MUX_Handle_t option \<times> hw" where
  "MUX_Init hmux cfg w =
     (case hmux of
        None \<Rightarrow> (HAL_ERROR, hmux, w)
      | Some h \<Rightarrow>
          (case cfg of
             None \<Rightarrow> (HAL_ERROR, hmux, w)
           | Some c \<Rightarrow>
               let h1 = h\<lparr>config := c\<rparr>;
                   h2 = h1\<lparr>current_channel := 0\<rparr>;
                   h3 = h2\<lparr>is_enabled := False\<rparr>;
                   h4 = h3\<lparr>settling_time_us := 10\<rparr>;
                   w1 = HAL_GPIO_WritePin (s0_port (config h4)) (s0_pin (config h4)) GPIO_PIN_RESET w;
                   w2 = HAL_GPIO_WritePin (s1_port (config h4)) (s1_pin (config h4)) GPIO_PIN_RESET w1;
                   w3 = HAL_GPIO_WritePin (s2_port (config h4)) (s2_pin (config h4)) GPIO_PIN_RESET w2;
                   w4 = HAL_GPIO_WritePin (s3_port (config h4)) (s3_pin (config h4)) GPIO_PIN_RESET w3;
                   w5 = HAL_GPIO_WritePin (en_port (config h4)) (en_pin (config h4)) GPIO_PIN_SET w4
               in (HAL_OK, Some h4, w5)))"

definition MUX_SetSettlingTime :: "MUX_Handle_t \<Rightarrow> 16 word \<Rightarrow> MUX_Handle_t" where
  "MUX_SetSettlingTime hmux time_us = hmux\<lparr>settling_time_us := time_us\<rparr>"

definition MUX_Enable :: "MUX_Handle_t \<Rightarrow> hw \<Rightarrow> MUX_Handle_t \<times> hw" where
  "MUX_Enable hmux w =
     (let w1 = HAL_GPIO_WritePin (en_port (config hmux)) (en_pin (config hmux)) GPIO_PIN_RESET w
      in (hmux\<lparr>is_enabled := True\<rparr>, w1))"

definition MUX_Disable :: "MUX_Handle_t \<Rightarrow> hw \<Rightarrow> MUX_Handle_t \<times> hw" where
  "MUX_Disable hmux w =
     (let w1 = HAL_GPIO_WritePin (en_port (config hmux)) (en_pin (config hmux)) GPIO_PIN_SET w
      in (hmux\<lparr>is_enabled := False\<rparr>, w1))"

definition MUX_SelectChannel :: "MUX_Handle_t \<Rightarrow> 8 word \<Rightarrow> hw \<Rightarrow> MUX_Handle_t \<times> hw" where
  "MUX_SelectChannel hmux channel w =
     (if uint channel \<ge> MUX_CHANNELS then (hmux, w)
      else
        let w1 = HAL_GPIO_WritePin (s0_port (config hmux)) (s0_pin (config hmux))
                   (if channel AND 0x01 \<noteq> 0 then GPIO_PIN_SET else GPIO_PIN_RESET) w;
            w2 = HAL_GPIO_WritePin (s1_port (config hmux)) (s1_pin (config hmux))
                   (if channel AND 0x02 \<noteq> 0 then GPIO_PIN_SET else GPIO_PIN_RESET) w1;
            w3 = HAL_GPIO_WritePin (s2_port (config hmux)) (s2_pin (config hmux))
                   (if channel AND 0x04 \<noteq> 0 then GPIO_PIN_SET else GPIO_PIN_RESET) w2;
            w4 = HAL_GPIO_WritePin (s3_port (config hmux)) (s3_pin (config hmux))
                   (if channel AND 0x08 \<noteq> 0 then GPIO_PIN_SET else GPIO_PIN_RESET) w3;
            h1 = hmux\<lparr>current_channel := channel\<rparr>;
            w5 = delay_us (settling_time_us h1) w4
        in (h1, w5))"

definition MUX_ReadChannel :: "MUX_Handle_t \<Rightarrow> 8 word \<Rightarrow> hw
    \<Rightarrow> (16 word \<times> MUX_Handle_t \<times> hw) option" where
  "MUX_ReadChannel hmux channel w =
     (let (h1, w1) = (if \<not> is_enabled hmux then MUX_Enable hmux w else (hmux, w));
          (h2, w2) = MUX_SelectChannel h1 channel w1;
          w3 = HAL_ADC_Start (hadc (config h2)) w2
      in case HAL_ADC_PollForConversion (hadc (config h2)) HAL_MAX_DELAY w3 of
           None \<Rightarrow> None
         | Some w4 \<Rightarrow>
             let (v, w5) = HAL_ADC_GetValue (hadc (config h2)) w4;
                 val = (ucast v :: 16 word);
                 w6 = HAL_ADC_Stop (hadc (config h2)) w5
             in Some (val, h2, w6))"

text \<open>
  \<open>for(uint8_t i = 0; i < num_channels; i++) data[i] = MUX_ReadChannel(hmux, i);\<close>
  The buffer is the memory starting at \<open>data\<close>, indexed in units of
  \<open>uint16_t\<close>, and is taken to be disjoint from the handle.
\<close>

function read_loop :: "8 word \<Rightarrow> 8 word \<Rightarrow> MUX_Handle_t \<Rightarrow> (nat \<Rightarrow> 16 word) \<Rightarrow> hw
    \<Rightarrow> (MUX_Handle_t \<times> (nat \<Rightarrow> 16 word) \<times> hw) option" where
  "read_loop i num_channels hmux data w =
     (if i < num_channels then
        (case MUX_ReadChannel hmux i w of
           None \<Rightarrow> None
         | Some (v, h', w') \<Rightarrow> read_loop (i + 1) num_channels h' (data(unat i := v)) w')
      else Some (hmux, data, w))"
  by pat_completeness auto
termination
proof (relation "measure (\<lambda>(i, n, h, d, w). unat n - unat i)")
  show "wf (measure (\<lambda>(i, n, h, d, w). unat n - unat i))"
    by simp
next
  fix i n :: "8 word" and hmux :: MUX_Handle_t and data :: "nat \<Rightarrow> 16 word" and w :: hw
    and x2 :: "16 word \<times> MUX_Handle_t \<times> hw" and x y z xa ya
  assume lt: "i < n"
  have "unat i < unat n"
    using lt by (simp add: word_less_nat_alt)
  moreover have "unat n < 256"
    using unsigned_less [of n, where 'a = nat] by simp
  ultimately have "unat (i + 1) = unat i + 1"
    by (simp add: unat_word_ariths)
  with \<open>unat i < unat n\<close>
  show "((i + 1, n, ya, data(unat i := x), z), (i, n, hmux, data, w))
          \<in> measure (\<lambda>(i, n, h, d, w). unat n - unat i)"
    by simp
qed

definition MUX_ReadAllChannels :: "MUX_Handle_t \<Rightarrow> (nat \<Rightarrow> 16 word) option \<Rightarrow> 8 word \<Rightarrow> hw
    \<Rightarrow> (HAL_StatusTypeDef \<times> MUX_Handle_t \<times> (nat \<Rightarrow> 16 word) option \<times> hw) option" where
  "MUX_ReadAllChannels hmux data num_channels w =
     (case data of
        None \<Rightarrow> Some (HAL_ERROR, hmux, data, w)
      | Some d \<Rightarrow>
          if uint num_channels > MUX_CHANNELS then Some (HAL_ERROR, hmux, data, w)
          else
            let (h1, w1) = (if \<not> is_enabled hmux then MUX_Enable hmux w else (hmux, w))
            in case read_loop 0 num_channels h1 d w1 of
                 None \<Rightarrow> None
               | Some (h2, d2, w2) \<Rightarrow> Some (HAL_OK, h2, Some d2, w2))"

definition MUX_GetCurrentChannel :: "MUX_Handle_t \<Rightarrow> 8 word" where
  "MUX_GetCurrentChannel hmux = current_channel hmux"

declare delay_loop.simps [simp del]
declare read_loop.simps [simp del]

subsection \<open>Observing the lines\<close>

definition s0_line :: "MUX_Config_t \<Rightarrow> gpio_line" where
  "s0_line c = (s0_port c, s0_pin c)"

definition s1_line :: "MUX_Config_t \<Rightarrow> gpio_line" where
  "s1_line c = (s1_port c, s1_pin c)"

definition s2_line :: "MUX_Config_t \<Rightarrow> gpio_line" where
  "s2_line c = (s2_port c, s2_pin c)"

definition s3_line :: "MUX_Config_t \<Rightarrow> gpio_line" where
  "s3_line c = (s3_port c, s3_pin c)"

definition en_line :: "MUX_Config_t \<Rightarrow> gpio_line" where
  "en_line c = (en_port c, en_pin c)"

definition select_lines :: "MUX_Config_t \<Rightarrow> gpio_line list" where
  "select_lines c = [s0_line c, s1_line c, s2_line c, s3_line c]"

definition write_line :: "gpio_line \<Rightarrow> GPIO_PinState \<Rightarrow> hal_call" where
  "write_line l st = GPIO_WritePin (fst l) (snd l) st"

text \<open>The level of a bit: high for 1, low for 0.\<close>

definition pin_of :: "bool \<Rightarrow> GPIO_PinState" where
  "pin_of b = (if b then GPIO_PIN_SET else GPIO_PIN_RESET)"

text \<open>The four writes that put the bits 0 to 3 of \<open>channel\<close> on S0 to S3.\<close>

definition select_writes :: "MUX_Config_t \<Rightarrow> 8 word \<Rightarrow> hal_call list" where
  "select_writes c channel =
     [GPIO_WritePin (s0_port c) (s0_pin c) (pin_of (bit channel 0)),
      GPIO_WritePin (s1_port c) (s1_pin c) (pin_of (bit channel 1)),
      GPIO_WritePin (s2_port c) (s2_pin c) (pin_of (bit channel 2)),
      GPIO_WritePin (s3_port c) (s3_pin c) (pin_of (bit channel 3))]"

text \<open>The number of iterations \<open>delay_us\<close> computes for a delay of \<open>us\<close>.\<close>

definition settle_cycles :: "hw \<Rightarrow> 16 word \<Rightarrow> nat" where
  "settle_cycles w us = unat (((SystemCoreClock w div 1000000) * ucast us) div 3)"

definition level_bit :: "GPIO_PinState \<Rightarrow> nat" where
  "level_bit st = (case st of GPIO_PIN_RESET \<Rightarrow> 0 | GPIO_PIN_SET \<Rightarrow> 1)"

text \<open>
  Modelled from the spec: the multiplexer is an analog switch selecting one of
  16 input lines based on a 4-bit binary select code. The input addressed by
  the levels S0 to S3 were last driven to, when all four have been driven.
\<close>

definition selected_input :: "hal_call list \<Rightarrow> MUX_Config_t \<Rightarrow> nat option" where
  "selected_input log c =
     (case line_level log (s0_line c) of None \<Rightarrow> None | Some a \<Rightarrow>
     (case line_level log (s1_line c) of None \<Rightarrow> None | Some b \<Rightarrow>
     (case line_level log (s2_line c) of None \<Rightarrow> None | Some d \<Rightarrow>
     (case line_level log (s3_line c) of None \<Rightarrow> None | Some e \<Rightarrow>
        Some (level_bit a + 2 * level_bit b + 4 * level_bit d + 8 * level_bit e)))))"

text \<open>
  The writes \<open>MUX_ReadChannel\<close> makes before it starts the ADC: the enable
  line goes low when the handle is disabled, and the select lines follow when
  the channel is in range.
\<close>

definition enable_writes :: "MUX_Handle_t \<Rightarrow> hal_call list" where
  "enable_writes hmux =
     (if is_enabled hmux then []
      else [GPIO_WritePin (en_port (config hmux)) (en_pin (config hmux)) GPIO_PIN_RESET])"

definition channel_writes :: "MUX_Config_t \<Rightarrow> 8 word \<Rightarrow> hal_call list" where
  "channel_writes c channel = (if channel < 16 then select_writes c channel else [])"

definition adc_calls :: "MUX_Config_t \<Rightarrow> hal_call list" where
  "adc_calls c =
     [ADC_Start (hadc c), ADC_PollForConversion (hadc c) HAL_MAX_DELAY,
      ADC_GetValue (hadc c), ADC_Stop (hadc c)]"

text \<open>
  The wiring the data model describes: the enable line is a line of its own,
  none of the four select lines.
\<close>

definition wired :: "MUX_Config_t \<Rightarrow> bool" where
  "wired c = (en_line c \<notin> set (select_lines c))"

subsection \<open>The sweep, as the specification words it\<close>

text \<open>
  For the channel indices in the list, in this order: perform the
  single-channel read and write the result into the buffer at the index. A
  read that does not return ends the sweep without a result.
\<close>

fun sweep :: "nat list \<Rightarrow> MUX_Handle_t \<Rightarrow> (nat \<Rightarrow> 16 word) \<Rightarrow> hw
    \<Rightarrow> (MUX_Handle_t \<times> (nat \<Rightarrow> 16 word) \<times> hw) option" where
  "sweep [] hmux buffer w = Some (hmux, buffer, w)"
| "sweep (i # is) hmux buffer w =
     (case MUX_ReadChannel hmux (of_nat i) w of
        None \<Rightarrow> None
      | Some (v, h', w') \<Rightarrow> sweep is h' (buffer(i := v)) w')"

subsection \<open>Sequences of driver calls\<close>

text \<open>
  A caller holds one handle and makes the driver's calls one after the other;
  a call that does not return ends the sequence without a state.
\<close>

datatype mux_call =
    Call_Init "MUX_Config_t option"
  | Call_SetSettlingTime "16 word"
  | Call_Enable
  | Call_Disable
  | Call_SelectChannel "8 word"
  | Call_ReadChannel "8 word"
  | Call_ReadAllChannels "(nat \<Rightarrow> 16 word) option" "8 word"
  | Call_GetCurrentChannel

fun run_call :: "mux_call \<Rightarrow> MUX_Handle_t \<times> hw \<Rightarrow> (MUX_Handle_t \<times> hw) option" where
  "run_call (Call_Init cfg) (h, w) =
     (case MUX_Init (Some h) cfg w of
        (st, hopt, w') \<Rightarrow> Some (case hopt of Some h' \<Rightarrow> h' | None \<Rightarrow> h, w'))"
| "run_call (Call_SetSettlingTime t) (h, w) = Some (MUX_SetSettlingTime h t, w)"
| "run_call Call_Enable (h, w) = Some (MUX_Enable h w)"
| "run_call Call_Disable (h, w) = Some (MUX_Disable h w)"
| "run_call (Call_SelectChannel channel) (h, w) = Some (MUX_SelectChannel h channel w)"
| "run_call (Call_ReadChannel channel) (h, w) =
     (case MUX_ReadChannel h channel w of
        None \<Rightarrow> None
      | Some (v, h', w') \<Rightarrow> Some (h', w'))"
| "run_call (Call_ReadAllChannels data n) (h, w) =
     (case MUX_ReadAllChannels h data n w of
        None \<Rightarrow> None
      | Some (st, h', d', w') \<Rightarrow> Some (h', w'))"
| "run_call Call_GetCurrentChannel (h, w) = (case MUX_GetCurrentChannel h of channel \<Rightarrow> Some (h, w))"

fun run_calls :: "mux_call list \<Rightarrow> MUX_Handle_t \<times> hw \<Rightarrow> (MUX_Handle_t \<times> hw) option" where
  "run_calls [] s = Some s"
| "run_calls (c # cs) s = (case run_call c s of None \<Rightarrow> None | Some s' \<Rightarrow> run_calls cs s')"

text \<open>The configurations a sequence of calls initialises the handle with are wired.\<close>

fun wired_call :: "mux_call \<Rightarrow> bool" where
  "wired_call (Call_Init (Some c)) = wired c"
| "wired_call _ = True"

text \<open>
  The batch read, as the specification words it: enable the multiplexer if it
  is not enabled, then sweep the channel indices 0 to \<open>count - 1\<close>.
\<close>

definition read_all_spec :: "MUX_Handle_t \<Rightarrow> (nat \<Rightarrow> 16 word) \<Rightarrow> nat \<Rightarrow> hw
    \<Rightarrow> (HAL_StatusTypeDef \<times> MUX_Handle_t \<times> (nat \<Rightarrow> 16 word) option \<times> hw) option" where
  "read_all_spec hmux buffer count w =
     (case (if is_enabled hmux then (hmux, w) else MUX_Enable hmux w) of
        (h1, w1) \<Rightarrow>
          (case sweep [0..<count] h1 buffer w1 of
             None \<Rightarrow> None
           | Some (h', b', w') \<Rightarrow> Some (HAL_OK, h', Some b', w')))"

subsection \<open>Invariants of the handle\<close>

definition channel_ok :: "MUX_Handle_t \<times> hw \<Rightarrow> bool" where
  "channel_ok s = (current_channel (fst s) < 16)"

text \<open>
  The enable line is active-low: the flag \<open>is_enabled\<close> mirrors the line when the
  line was last driven low exactly if the flag is set.
\<close>

definition enable_mirrored :: "MUX_Handle_t \<times> hw \<Rightarrow> bool" where
  "enable_mirrored s =
     (line_level (hal_log (snd s)) (en_line (config (fst s))) =
        Some (if is_enabled (fst s) then GPIO_PIN_RESET else GPIO_PIN_SET))"

definition mirrored :: "MUX_Handle_t \<Rightarrow> hw \<Rightarrow> bool" where
  "mirrored h w = (wired (config h) \<and> enable_mirrored (h, w))"

subsection \<open>A board, a handle with stale contents and a bench\<close>

definition board_config :: MUX_Config_t where
  "board_config =
     \<lparr>s0_port = 0x40010C00, s0_pin = 0x0001,
      s1_port = 0x40010C00, s1_pin = 0x0002,
      s2_port = 0x40010C00, s2_pin = 0x0400,
      s3_port = 0x40010C00, s3_pin = 0x0800,
      en_port = 0x40010800, en_pin = 0x0100,
      hadc = 0x20000100, adc_channel = 0\<rparr>"

definition stale_handle :: MUX_Handle_t where
  "stale_handle =
     \<lparr>config = board_config\<lparr>en_port := 0x40011000\<rparr>,
      current_channel = 0xAA, is_enabled = True, settling_time_us = 0xFFFF\<rparr>"

definition ready_handle :: MUX_Handle_t where
  "ready_handle =
     \<lparr>config = board_config, current_channel = 0, is_enabled = False, settling_time_us = 10\<rparr>"

definition bench :: hw where
  "bench =
     \<lparr>SystemCoreClock = 72000000, hal_log = [], nop_count = 0,
      adc_ready = (\<lambda>log. True),
      adc_data = (\<lambda>log. 1000 + of_nat (length log))\<rparr>"

definition init_log :: "hal_call list" where
  "init_log =
     [GPIO_WritePin 0x40010C00 0x0001 GPIO_PIN_RESET,
      GPIO_WritePin 0x40010C00 0x0002 GPIO_PIN_RESET,
      GPIO_WritePin 0x40010C00 0x0400 GPIO_PIN_RESET,
      GPIO_WritePin 0x40010C00 0x0800 GPIO_PIN_RESET,
      GPIO_WritePin 0x40010800 0x0100 GPIO_PIN_SET]"

definition powered :: hw where
  "powered = bench\<lparr>hal_log := init_log\<rparr>"

definition bench_calls :: "mux_call list" where
  "bench_calls =
     [Call_Enable, Call_SelectChannel 5, Call_ReadChannel 3, Call_Disable,
      Call_Init (Some board_config), Call_SetSettlingTime 0, Call_ReadChannel 200,
      Call_ReadAllChannels (Some (\<lambda>i. 0)) 2, Call_SelectChannel 16, Call_GetCurrentChannel]"

text \<open>
  A board on which the enable line is given the pin of S0: the configuration,
  the handle and the hardware as \<open>MUX_Init\<close> leaves them on the bench, and the
  hardware after a select of channel 0 that follows.
\<close>

definition shared_pin_config :: MUX_Config_t where
  "shared_pin_config = board_config\<lparr>en_port := 0x40010C00, en_pin := 0x0001\<rparr>"

definition shared_pin_handle :: MUX_Handle_t where
  "shared_pin_handle =
     \<lparr>config = shared_pin_config, current_channel = 0, is_enabled = False,
      settling_time_us = 10\<rparr>"

definition shared_pin_init_log :: "hal_call list" where
  "shared_pin_init_log =
     [GPIO_WritePin 0x40010C00 0x0001 GPIO_PIN_RESET,
      GPIO_WritePin 0x40010C00 0x0002 GPIO_PIN_RESET,
      GPIO_WritePin 0x40010C00 0x0400 GPIO_PIN_RESET,
      GPIO_WritePin 0x40010C00 0x0800 GPIO_PIN_RESET,
      GPIO_WritePin 0x40010C00 0x0001 GPIO_PIN_SET]"

definition shared_pin_powered :: hw where
  "shared_pin_powered = bench\<lparr>hal_log := shared_pin_init_log\<rparr>"

definition shared_pin_selected :: hw where
  "shared_pin_selected =
     bench\<lparr>hal_log := shared_pin_init_log @
              [GPIO_WritePin 0x40010C00 0x0001 GPIO_PIN_RESET,
               GPIO_WritePin 0x40010C00 0x0002 GPIO_PIN_RESET,
               GPIO_WritePin 0x40010C00 0x0400 GPIO_PIN_RESET,
               GPIO_WritePin 0x40010C00 0x0800 GPIO_PIN_RESET],
           nop_count := 240\<rparr>"

section \<open>Properties\<close>

subsection \<open>Lines and logs\<close>

lemma line_level_append:
  "line_level (xs @ ys) l =
     (case line_level ys l of Some st \<Rightarrow> Some st | None \<Rightarrow> line_level xs l)"
  by (induction xs) (auto split: option.splits hal_call.splits)

lemma line_level_write:
  "line_level (log @ [write_line l' st]) l = (if l' = l then Some st else line_level log l)"
  by (simp add: line_level_append write_line_def)

lemma select_writes_lines:
  "select_writes c channel =
     [write_line (s0_line c) (pin_of (bit channel 0)),
      write_line (s1_line c) (pin_of (bit channel 1)),
      write_line (s2_line c) (pin_of (bit channel 2)),
      write_line (s3_line c) (pin_of (bit channel 3))]"
  by (simp add: select_writes_def write_line_def s0_line_def s1_line_def s2_line_def s3_line_def)

lemma line_level_select_writes:
  "line_level (log @ select_writes c channel) l =
     (if l = s3_line c then Some (pin_of (bit channel 3))
      else if l = s2_line c then Some (pin_of (bit channel 2))
      else if l = s1_line c then Some (pin_of (bit channel 1))
      else if l = s0_line c then Some (pin_of (bit channel 0))
      else line_level log l)"
proof -
  have "log @ select_writes c channel =
          (((log @ [write_line (s0_line c) (pin_of (bit channel 0))])
             @ [write_line (s1_line c) (pin_of (bit channel 1))])
             @ [write_line (s2_line c) (pin_of (bit channel 2))])
             @ [write_line (s3_line c) (pin_of (bit channel 3))]"
    by (simp add: select_writes_lines)
  then show ?thesis
    by (simp only: line_level_write) auto
qed

lemma select_levels:
  assumes "distinct (select_lines c)"
  shows "line_level (log @ select_writes c channel) (s0_line c) = Some (pin_of (bit channel 0))"
    and "line_level (log @ select_writes c channel) (s1_line c) = Some (pin_of (bit channel 1))"
    and "line_level (log @ select_writes c channel) (s2_line c) = Some (pin_of (bit channel 2))"
    and "line_level (log @ select_writes c channel) (s3_line c) = Some (pin_of (bit channel 3))"
  using assms by (simp_all add: line_level_select_writes select_lines_def)

lemma line_level_adc_calls: "line_level (adc_calls c) l = None"
  by (simp add: adc_calls_def)

lemma line_level_enable_writes:
  "line_level (enable_writes h) l =
     (if \<not> is_enabled h \<and> l = en_line (config h) then Some GPIO_PIN_RESET else None)"
  by (auto simp: enable_writes_def en_line_def)

lemma line_level_channel_writes:
  "line_level (channel_writes c channel) l =
     (if channel < 16 then
        (if l = s3_line c then Some (pin_of (bit channel 3))
         else if l = s2_line c then Some (pin_of (bit channel 2))
         else if l = s1_line c then Some (pin_of (bit channel 1))
         else if l = s0_line c then Some (pin_of (bit channel 0))
         else None)
      else None)"
  using line_level_select_writes [of "[]" c channel l] by (simp add: channel_writes_def)

lemma line_level_channel_writes_en:
  "wired c \<Longrightarrow> line_level (channel_writes c channel) (en_line c) = None"
  by (simp add: line_level_channel_writes wired_def select_lines_def)



lemma init_writes_lines:
  "[GPIO_WritePin (s0_port c) (s0_pin c) GPIO_PIN_RESET,
    GPIO_WritePin (s1_port c) (s1_pin c) GPIO_PIN_RESET,
    GPIO_WritePin (s2_port c) (s2_pin c) GPIO_PIN_RESET,
    GPIO_WritePin (s3_port c) (s3_pin c) GPIO_PIN_RESET,
    GPIO_WritePin (en_port c) (en_pin c) GPIO_PIN_SET] =
   select_writes c 0 @ [write_line (en_line c) GPIO_PIN_SET]"
  by (simp add: select_writes_def write_line_def en_line_def pin_of_def)

lemma line_level_init_writes:
  "line_level (log @ select_writes c 0 @ [write_line (en_line c) GPIO_PIN_SET]) l =
     (if l = en_line c then Some GPIO_PIN_SET
      else if l \<in> set (select_lines c) then Some GPIO_PIN_RESET
      else line_level log l)"
proof -
  have "line_level (log @ select_writes c 0 @ [write_line (en_line c) GPIO_PIN_SET]) l =
          line_level ((log @ select_writes c 0) @ [write_line (en_line c) GPIO_PIN_SET]) l"
    by simp
  also have "\<dots> = (if en_line c = l then Some GPIO_PIN_SET else line_level (log @ select_writes c 0) l)"
    by (rule line_level_write)
  finally show ?thesis
    by (auto simp: line_level_select_writes select_lines_def pin_of_def)
qed

subsection \<open>The settle delay and the channel select\<close>

lemma delay_loop_eq: "delay_loop cycles w = w\<lparr>nop_count := nop_count w + unat cycles\<rparr>"
proof (induction cycles w rule: delay_loop.induct)
  case (1 cycles w)
  show ?case
  proof (cases "cycles = 0")
    case True
    then show ?thesis by (simp add: delay_loop.simps [of 0])
  next
    case False
    then have "unat (cycles - 1) = unat cycles - 1" by (simp add: unat_minus_one)
    moreover have "0 < unat cycles" using False by (simp add: unat_gt_0)
    ultimately show ?thesis using 1 False
      by (subst delay_loop.simps) (simp add: NOP_def)
  qed
qed

lemma delay_us_eq: "delay_us us w = w\<lparr>nop_count := nop_count w + settle_cycles w us\<rparr>"
  by (simp add: delay_us_def delay_loop_eq settle_cycles_def)

lemma mask_bits:
  fixes channel :: "8 word"
  shows "(channel AND 0x01 \<noteq> 0) = bit channel 0"
    and "(channel AND 0x02 \<noteq> 0) = bit channel 1"
    and "(channel AND 0x04 \<noteq> 0) = bit channel 2"
    and "(channel AND 0x08 \<noteq> 0) = bit channel 3"
  using and_exp_eq_0_iff_not_bit [of channel 0] and_exp_eq_0_iff_not_bit [of channel 1]
    and_exp_eq_0_iff_not_bit [of channel 2] and_exp_eq_0_iff_not_bit [of channel 3]
  by simp_all

lemma upt4: "[0..<4] = [0, 1, 2, 3::nat]"
  by (simp add: upt_rec)

lemma nat_nibble:
  fixes k :: nat
  assumes "k < 16"
  shows "k = of_bool (bit k 0) + 2 * of_bool (bit k 1) + 4 * of_bool (bit k 2) + 8 * of_bool (bit k 3)"
proof -
  have "take_bit 4 k = k"
    using assms by (simp add: take_bit_nat_eq_self)
  moreover have "horner_sum of_bool 2 (map (bit k) [0..<4]) = take_bit 4 k"
    by (rule horner_sum_bit_eq_take_bit)
  ultimately show ?thesis
    by (simp add: upt4)
qed

lemma nibble_decomp:
  fixes channel :: "8 word"
  assumes "channel < 16"
  shows "unat channel = level_bit (pin_of (bit channel 0)) + 2 * level_bit (pin_of (bit channel 1))
           + 4 * level_bit (pin_of (bit channel 2)) + 8 * level_bit (pin_of (bit channel 3))"
proof -
  have lt: "unat channel < 16"
    using assms by (simp add: word_less_nat_alt)
  have b: "bit (unat channel) n = bit channel n" for n
    by (simp add: bit_unsigned_iff)
  have l: "level_bit (pin_of x) = of_bool x" for x
    by (simp add: level_bit_def pin_of_def)
  show ?thesis using nat_nibble [OF lt] by (simp only: b l)
qed

lemma out_of_range: "(uint (channel :: 8 word) \<ge> MUX_CHANNELS) = (16 \<le> channel)"
  by (simp add: MUX_CHANNELS_def word_le_def)

lemma MUX_SelectChannel_valid:
  assumes "channel < 16"
  shows "MUX_SelectChannel hmux channel w =
           (hmux\<lparr>current_channel := channel\<rparr>,
            w\<lparr>hal_log := hal_log w @ select_writes (config hmux) channel,
              nop_count := nop_count w + settle_cycles w (settling_time_us hmux)\<rparr>)"
proof -
  have "\<not> uint channel \<ge> MUX_CHANNELS"
    using assms by (simp add: out_of_range)
  then show ?thesis
    by (simp add: MUX_SelectChannel_def mask_bits HAL_GPIO_WritePin_def delay_us_eq
        select_writes_def pin_of_def settle_cycles_def)
qed

lemma MUX_SelectChannel_invalid:
  assumes "16 \<le> channel"
  shows "MUX_SelectChannel hmux channel w = (hmux, w)"
  using assms by (simp add: MUX_SelectChannel_def out_of_range)

lemma selected_input_select_writes:
  assumes "channel < 16" and "distinct (select_lines c)"
  shows "selected_input (log @ select_writes c channel) c = Some (unat channel)"
  using nibble_decomp [OF assms(1)]
  by (simp add: selected_input_def select_levels [OF assms(2)])

subsection \<open>Initialisation, enable and disable\<close>

lemma MUX_Init_ok:
  "MUX_Init (Some h) (Some c) w =
     (HAL_OK,
      Some \<lparr>config = c, current_channel = 0, is_enabled = False, settling_time_us = 10\<rparr>,
      w\<lparr>hal_log := hal_log w @
          [GPIO_WritePin (s0_port c) (s0_pin c) GPIO_PIN_RESET,
           GPIO_WritePin (s1_port c) (s1_pin c) GPIO_PIN_RESET,
           GPIO_WritePin (s2_port c) (s2_pin c) GPIO_PIN_RESET,
           GPIO_WritePin (s3_port c) (s3_pin c) GPIO_PIN_RESET,
           GPIO_WritePin (en_port c) (en_pin c) GPIO_PIN_SET]\<rparr>)"
  by (simp add: MUX_Init_def HAL_GPIO_WritePin_def)

lemma MUX_Init_null:
  "hmux = None \<or> cfg = None \<Longrightarrow> MUX_Init hmux cfg w = (HAL_ERROR, hmux, w)"
  by (auto simp: MUX_Init_def split: option.splits)

lemma MUX_Init_HAL_OK:
  assumes "MUX_Init hopt cfg w0 = (HAL_OK, Some h1, w1)"
  shows "\<exists>h0 c. hopt = Some h0 \<and> cfg = Some c
           \<and> h1 = \<lparr>config = c, current_channel = 0, is_enabled = False, settling_time_us = 10\<rparr>
           \<and> w1 = w0\<lparr>hal_log := hal_log w0 @ select_writes c 0 @ [write_line (en_line c) GPIO_PIN_SET]\<rparr>"
proof (cases "hopt = None \<or> cfg = None")
  case True
  then show ?thesis
    using assms by (simp add: MUX_Init_null)
next
  case False
  then obtain h0 c where "hopt = Some h0" "cfg = Some c"
    by auto
  then show ?thesis
    using assms by (simp add: MUX_Init_ok init_writes_lines)
qed

lemma MUX_Enable_eq:
  "MUX_Enable h w =
     (h\<lparr>is_enabled := True\<rparr>,
      w\<lparr>hal_log := hal_log w @ [GPIO_WritePin (en_port (config h)) (en_pin (config h)) GPIO_PIN_RESET]\<rparr>)"
  by (simp add: MUX_Enable_def HAL_GPIO_WritePin_def)

lemma MUX_Disable_eq:
  "MUX_Disable h w =
     (h\<lparr>is_enabled := False\<rparr>,
      w\<lparr>hal_log := hal_log w @ [GPIO_WritePin (en_port (config h)) (en_pin (config h)) GPIO_PIN_SET]\<rparr>)"
  by (simp add: MUX_Disable_def HAL_GPIO_WritePin_def)

lemma ensure_enabled_eq:
  "(if \<not> is_enabled h then MUX_Enable h w else (h, w)) =
     (h\<lparr>is_enabled := True\<rparr>, w\<lparr>hal_log := hal_log w @ enable_writes h\<rparr>)"
  by (simp add: MUX_Enable_eq enable_writes_def)

lemma MUX_SelectChannel_eq:
  "MUX_SelectChannel h channel w =
     (h\<lparr>current_channel := (if channel < 16 then channel else current_channel h)\<rparr>,
      w\<lparr>hal_log := hal_log w @ channel_writes (config h) channel,
        nop_count := nop_count w + (if channel < 16 then settle_cycles w (settling_time_us h) else 0)\<rparr>)"
proof (cases "channel < 16")
  case True
  then show ?thesis
    by (simp add: MUX_SelectChannel_valid channel_writes_def)
next
  case False
  then have "16 \<le> channel" by simp
  then show ?thesis
    using False by (simp add: MUX_SelectChannel_invalid channel_writes_def)
qed

subsection \<open>The single-channel read\<close>

text \<open>The log at the moment the poll is made, and the read in closed form.\<close>

lemma MUX_ReadChannel_eq:
  "MUX_ReadChannel h channel w =
     (if adc_ready w (hal_log w @ enable_writes h @ channel_writes (config h) channel
                       @ [ADC_Start (hadc (config h))])
      then Some
        (ucast (adc_data w (hal_log w @ enable_writes h @ channel_writes (config h) channel
                   @ [ADC_Start (hadc (config h)),
                      ADC_PollForConversion (hadc (config h)) HAL_MAX_DELAY])),
         h\<lparr>current_channel := (if channel < 16 then channel else current_channel h),
           is_enabled := True\<rparr>,
         w\<lparr>hal_log := hal_log w @ enable_writes h @ channel_writes (config h) channel
                    @ adc_calls (config h),
           nop_count := nop_count w
                    + (if channel < 16 then settle_cycles w (settling_time_us h) else 0)\<rparr>)
      else None)"
  unfolding MUX_ReadChannel_def ensure_enabled_eq
  by (simp add: MUX_SelectChannel_eq HAL_ADC_Start_def HAL_ADC_PollForConversion_def
      HAL_ADC_GetValue_def HAL_ADC_Stop_def adc_calls_def settle_cycles_def)

lemma MUX_ReadChannel_SomeD:
  assumes "MUX_ReadChannel h channel w = Some (v, h', w')"
  shows "is_enabled h'" and "config h' = config h"
    and "settling_time_us h' = settling_time_us h"
    and "current_channel h' = (if channel < 16 then channel else current_channel h)"
    and "adc_ready w' = adc_ready w" and "adc_data w' = adc_data w"
    and "SystemCoreClock w' = SystemCoreClock w"
    and "hal_log w' = hal_log w @ enable_writes h @ channel_writes (config h) channel
                        @ adc_calls (config h)"
  using assms by (auto simp: MUX_ReadChannel_eq split: if_splits)

lemma MUX_ReadChannel_returns:
  assumes "\<forall>log. adc_ready w log"
  shows "\<exists>v h' w'. MUX_ReadChannel h channel w = Some (v, h', w')"
  using assms by (simp add: MUX_ReadChannel_eq)

subsection \<open>The loop of the batch read is the sweep\<close>

lemma read_loop_sweep:
  "read_loop i n h d w = sweep [unat i..<unat n] h d w"
proof (induction i n h d w rule: read_loop.induct)
  case (1 i n h d w)
  show ?case
  proof (cases "i < n")
    case False
    then have "unat n \<le> unat i"
      by (simp add: word_less_nat_alt)
    then show ?thesis
      using False by (subst read_loop.simps) simp
  next
    case True
    then have lt: "unat i < unat n"
      by (simp add: word_less_nat_alt)
    moreover have "unat n < 256"
      using unsigned_less [of n, where 'a = nat] by simp
    ultimately have suc: "unat (i + 1) = Suc (unat i)"
      by (simp add: unat_word_ariths)
    have upt: "[unat i..<unat n] = unat i # [Suc (unat i)..<unat n]"
      using lt by (simp add: upt_conv_Cons)
    show ?thesis
    proof (cases "MUX_ReadChannel h i w")
      case None
      then show ?thesis
        using True by (subst read_loop.simps) (simp add: upt)
    next
      case (Some r)
      obtain v h' w' where r: "r = (v, h', w')"
        by (cases r)
      have "read_loop (i + 1) n h' (d(unat i := v)) w' =
              sweep [unat (i + 1)..<unat n] h' (d(unat i := v)) w'"
        using "1.IH" [OF True Some [unfolded r] refl refl] .
      then show ?thesis
        using True Some r by (subst read_loop.simps) (simp add: upt suc)
    qed
  qed
qed

lemma sweep_append:
  "sweep (xs @ ys) h b w =
     (case sweep xs h b w of None \<Rightarrow> None | Some (h', b', w') \<Rightarrow> sweep ys h' b' w')"
  by (induction xs arbitrary: h b w) (auto split: option.splits)

lemma sweep_buffer_other:
  "sweep js h b w = Some (h', b', w') \<Longrightarrow> j \<notin> set js \<Longrightarrow> b' j = b j"
  by (induction js arbitrary: h b w) (auto split: option.splits)

lemma sweep_preserves:
  assumes step: "\<And>h w channel v h' w'.
      P h w \<Longrightarrow> MUX_ReadChannel h channel w = Some (v, h', w') \<Longrightarrow> P h' w'"
    and "P h w" and "sweep js h b w = Some (h', b', w')"
  shows "P h' w'"
  using assms(2,3)
proof (induction js arbitrary: h b w)
  case Nil
  then show ?case by simp
next
  case (Cons j js)
  then show ?case
    by (auto split: option.splits dest: step)
qed

lemma sweep_returns:
  assumes "\<forall>log. adc_ready w log"
  shows "\<exists>h' b' w'. sweep js h b w = Some (h', b', w')"
  using assms
proof (induction js arbitrary: h b w)
  case Nil
  then show ?case by simp
next
  case (Cons j js)
  obtain v h1 w1 where r: "MUX_ReadChannel h (of_nat j) w = Some (v, h1, w1)"
    using MUX_ReadChannel_returns [OF Cons.prems] by blast
  have "\<forall>log. adc_ready w1 log"
    using Cons.prems MUX_ReadChannel_SomeD(5) [OF r] by simp
  from Cons.IH [OF this] show ?case
    using r by simp
qed

lemma sweep_last_channel:
  assumes "sweep js h b w = Some (h', b', w')" and "js \<noteq> []" and "\<forall>j \<in> set js. j < 16"
  shows "current_channel h' = of_nat (last js)"
  using assms
proof (induction js arbitrary: h b w)
  case Nil
  then show ?case by simp
next
  case (Cons j js)
  obtain v h1 w1 where r: "MUX_ReadChannel h (of_nat j) w = Some (v, h1, w1)"
    and s: "sweep js h1 (b(j := v)) w1 = Some (h', b', w')"
    using Cons.prems(1) by (auto split: option.splits)
  show ?case
  proof (cases "js = []")
    case True
    have "j < 16" using Cons.prems(3) by simp
    then have "(of_nat j :: 8 word) < 16"
      by (simp add: word_less_nat_alt unat_of_nat)
    then show ?thesis
      using True s MUX_ReadChannel_SomeD(4) [OF r] by simp
  next
    case False
    then show ?thesis
      using Cons.IH [OF s] Cons.prems(3) by simp
  qed
qed

lemma sweep_index:
  assumes "sweep [0..<n] h b w = Some (h', b', w')" and "i < n"
  shows "\<exists>hi bi wi h2 w2. sweep [0..<i] h b w = Some (hi, bi, wi)
           \<and> MUX_ReadChannel hi (of_nat i) wi = Some (b' i, h2, w2)"
proof -
  have split: "[0..<n] = [0..<i] @ i # [Suc i..<n]"
    using assms(2) by (metis le_add1 less_imp_add_positive upt_add_eq_append upt_conv_Cons plus_nat.add_0)
  obtain hi bi wi where pre: "sweep [0..<i] h b w = Some (hi, bi, wi)"
    and rest: "sweep (i # [Suc i..<n]) hi bi wi = Some (h', b', w')"
    using assms(1) unfolding split sweep_append by (auto split: option.splits)
  obtain v h2 w2 where r: "MUX_ReadChannel hi (of_nat i) wi = Some (v, h2, w2)"
    and tl: "sweep [Suc i..<n] h2 (bi(i := v)) w2 = Some (h', b', w')"
    using rest by (auto split: option.splits)
  have "b' i = (bi(i := v)) i"
    using sweep_buffer_other [OF tl, of i] by simp
  then show ?thesis
    using pre r by simp
qed

lemma too_many: "(uint (n :: 8 word) > MUX_CHANNELS) = (16 < n)"
  by (simp add: MUX_CHANNELS_def word_less_def)

lemma MUX_ReadAllChannels_eq:
  "MUX_ReadAllChannels h data n w =
     (case data of
        None \<Rightarrow> Some (HAL_ERROR, h, data, w)
      | Some d \<Rightarrow>
          if 16 < n then Some (HAL_ERROR, h, data, w)
          else
            (case sweep [0..<unat n] (h\<lparr>is_enabled := True\<rparr>) d
                    (w\<lparr>hal_log := hal_log w @ enable_writes h\<rparr>) of
               None \<Rightarrow> None
             | Some (h2, d2, w2) \<Rightarrow> Some (HAL_OK, h2, Some d2, w2)))"
  unfolding MUX_ReadAllChannels_def ensure_enabled_eq too_many
  by (simp add: read_loop_sweep split: option.splits)

lemma read_all_spec_eq:
  "read_all_spec h buf count w =
     (case sweep [0..<count] (h\<lparr>is_enabled := True\<rparr>) buf
             (w\<lparr>hal_log := hal_log w @ enable_writes h\<rparr>) of
        None \<Rightarrow> None
      | Some (h', b', w') \<Rightarrow> Some (HAL_OK, h', Some b', w'))"
proof -
  have "(if is_enabled h then (h, w) else MUX_Enable h w) =
          (h\<lparr>is_enabled := True\<rparr>, w\<lparr>hal_log := hal_log w @ enable_writes h\<rparr>)"
    using ensure_enabled_eq [of h w] by (cases "is_enabled h") simp_all
  then show ?thesis
    by (simp add: read_all_spec_def)
qed

lemma MUX_ReadAllChannels_spec:
  assumes "n \<le> 16"
  shows "MUX_ReadAllChannels h (Some buf) n w = read_all_spec h buf (unat n) w"
proof -
  have "\<not> 16 < n" using assms by simp
  then show ?thesis
    by (simp add: MUX_ReadAllChannels_eq read_all_spec_eq)
qed

lemma word_pred: "0 < (n :: 8 word) \<Longrightarrow> of_nat (unat n - 1) = n - 1"
proof -
  assume "0 < n"
  then have "unat (n - 1) = unat n - 1"
    by (simp add: unat_minus_one word_greater_zero_iff)
  then have "of_nat (unat n - 1) = (of_nat (unat (n - 1)) :: 8 word)"
    by simp
  then show ?thesis
    by simp
qed

subsection \<open>Invariants along a sequence of calls\<close>

lemma run_calls_preserves:
  assumes step: "\<And>c s s'. c \<in> set cs \<Longrightarrow> P s \<Longrightarrow> run_call c s = Some s' \<Longrightarrow> P s'"
    and "P s" and "run_calls cs s = Some s'"
  shows "P s'"
  using assms
proof (induction cs arbitrary: s)
  case Nil
  then show ?case by simp
next
  case (Cons c cs)
  obtain s1 where s1: "run_call c s = Some s1" and rest: "run_calls cs s1 = Some s'"
    using Cons.prems(3) by (auto split: option.splits)
  have s1_ok: "P s1"
    using Cons.prems(1) [of c s s1] Cons.prems(2) s1 by simp
  show ?case
  proof (rule Cons.IH [OF _ s1_ok rest])
    fix c' t t'
    assume "c' \<in> set cs" and "P t" and "run_call c' t = Some t'"
    then show "P t'"
      using Cons.prems(1) [of c' t t'] by simp
  qed
qed

lemma channel_ok_read:
  assumes "current_channel h < 16" and "MUX_ReadChannel h channel w = Some (v, h', w')"
  shows "current_channel h' < 16"
  using assms(1) MUX_ReadChannel_SomeD(4) [OF assms(2)] by (simp split: if_splits)

lemma channel_ok_call:
  assumes "channel_ok s" and "run_call c s = Some s'"
  shows "channel_ok s'"
proof -
  obtain h w where s: "s = (h, w)"
    by (cases s)
  have ok: "current_channel h < 16"
    using assms(1) s by (simp add: channel_ok_def)
  show ?thesis
  proof (cases c)
    case (Call_Init cfg)
    then show ?thesis
      using assms(2) ok s
      by (cases cfg) (auto simp: channel_ok_def MUX_Init_ok MUX_Init_null)
  next
    case (Call_SetSettlingTime t)
    then show ?thesis
      using assms(2) ok s by (auto simp: channel_ok_def MUX_SetSettlingTime_def)
  next
    case Call_Enable
    then show ?thesis
      using assms(2) ok s by (auto simp: channel_ok_def MUX_Enable_eq)
  next
    case Call_Disable
    then show ?thesis
      using assms(2) ok s by (auto simp: channel_ok_def MUX_Disable_eq)
  next
    case (Call_SelectChannel channel)
    then show ?thesis
      using assms(2) ok s by (auto simp: channel_ok_def MUX_SelectChannel_eq)
  next
    case (Call_ReadChannel channel)
    then show ?thesis
      using assms(2) ok s
      by (auto simp: channel_ok_def split: option.splits dest: channel_ok_read)
  next
    case (Call_ReadAllChannels data n)
    show ?thesis
    proof (cases "MUX_ReadAllChannels h data n w")
      case None
      then show ?thesis
        using assms(2) s Call_ReadAllChannels by simp
    next
      case (Some r)
      obtain st h2 d2 w2 where r: "r = (st, h2, d2, w2)"
        by (cases r)
      have s': "s' = (h2, w2)"
        using assms(2) s Call_ReadAllChannels Some r by simp
      have "current_channel h2 < 16"
      proof (cases "data = None \<or> 16 < n")
        case True
        then have "h2 = h"
          using Some r by (auto simp: MUX_ReadAllChannels_eq split: option.splits)
        then show ?thesis using ok by simp
      next
        case False
        then obtain d where d: "data = Some d" and n: "\<not> 16 < n"
          by auto
        then obtain b' where sw: "sweep [0..<unat n] (h\<lparr>is_enabled := True\<rparr>) d
                    (w\<lparr>hal_log := hal_log w @ enable_writes h\<rparr>) = Some (h2, b', w2)"
          using Some r by (auto simp: MUX_ReadAllChannels_eq split: option.splits)
        have "current_channel (h\<lparr>is_enabled := True\<rparr>) < 16"
          using ok by simp
        then show ?thesis
          using sweep_preserves [where P = "\<lambda>h w. current_channel h < 16", OF _ _ sw]
            channel_ok_read by blast
      qed
      then show ?thesis
        using s' by (simp add: channel_ok_def)
    qed
  next
    case Call_GetCurrentChannel
    then show ?thesis
      using assms(2) ok s by (auto simp: channel_ok_def)
  qed
qed

lemma channel_ok_calls:
  assumes "channel_ok s" and "run_calls cs s = Some s'"
  shows "channel_ok s'"
  using run_calls_preserves [where P = channel_ok, OF _ assms] channel_ok_call by blast

lemma en_level_read:
  assumes "wired (config h)" and "MUX_ReadChannel h channel w = Some (v, h', w')"
    and "line_level (hal_log w) (en_line (config h)) =
           Some (if is_enabled h then GPIO_PIN_RESET else GPIO_PIN_SET)"
  shows "line_level (hal_log w') (en_line (config h')) = Some GPIO_PIN_RESET"
  using assms(3)
  by (simp add: MUX_ReadChannel_SomeD(2,8) [OF assms(2)] line_level_append
      line_level_adc_calls line_level_channel_writes_en [OF assms(1)] line_level_enable_writes)

lemma mirrored_read:
  assumes "mirrored h w" and "MUX_ReadChannel h channel w = Some (v, h', w')"
  shows "mirrored h' w'"
  using assms(1) en_level_read [OF _ assms(2)] MUX_ReadChannel_SomeD(1,2) [OF assms(2)]
  by (simp add: mirrored_def enable_mirrored_def)

lemma mirrored_call:
  assumes "wired_call c" and "mirrored h w" and "run_call c (h, w) = Some (h', w')"
  shows "mirrored h' w'"
proof (cases c)
  case (Call_Init cfg)
  show ?thesis
  proof (cases cfg)
    case None
    then show ?thesis
      using assms Call_Init by (simp add: MUX_Init_null)
  next
    case (Some c')
    then have "wired c'"
      using assms(1) Call_Init by simp
    then show ?thesis
      using assms(3) Call_Init Some
      by (auto simp: MUX_Init_ok init_writes_lines line_level_init_writes mirrored_def
          enable_mirrored_def)
  qed
next
  case (Call_SetSettlingTime t)
  then show ?thesis
    using assms by (auto simp: mirrored_def enable_mirrored_def MUX_SetSettlingTime_def)
next
  case Call_Enable
  then show ?thesis
    using assms
    by (auto simp: mirrored_def enable_mirrored_def MUX_Enable_eq line_level_append en_line_def)
next
  case Call_Disable
  then show ?thesis
    using assms
    by (auto simp: mirrored_def enable_mirrored_def MUX_Disable_eq line_level_append en_line_def)
next
  case (Call_SelectChannel channel)
  then show ?thesis
    using assms
    by (auto simp: mirrored_def enable_mirrored_def MUX_SelectChannel_eq line_level_append
        line_level_channel_writes_en)
next
  case (Call_ReadChannel channel)
  then show ?thesis
    using assms by (auto split: option.splits dest: mirrored_read)
next
  case (Call_ReadAllChannels data n)
  show ?thesis
  proof (cases "data = None \<or> 16 < n")
    case True
    then have "h' = h \<and> w' = w"
      using assms(3) Call_ReadAllChannels
      by (auto simp: MUX_ReadAllChannels_eq split: option.splits)
    then show ?thesis using assms(2) by simp
  next
    case False
    then obtain d where d: "data = Some d" and n: "\<not> 16 < n"
      by auto
    then obtain b' where sw: "sweep [0..<unat n] (h\<lparr>is_enabled := True\<rparr>) d
                (w\<lparr>hal_log := hal_log w @ enable_writes h\<rparr>) = Some (h', b', w')"
      using assms(3) Call_ReadAllChannels
      by (auto simp: MUX_ReadAllChannels_eq split: option.splits)
    have "mirrored (h\<lparr>is_enabled := True\<rparr>) (w\<lparr>hal_log := hal_log w @ enable_writes h\<rparr>)"
      using assms(2)
      by (auto simp: mirrored_def enable_mirrored_def line_level_append line_level_enable_writes)
    then show ?thesis
      using sweep_preserves [where P = mirrored, OF _ _ sw] mirrored_read by blast
  qed
next
  case Call_GetCurrentChannel
  then show ?thesis
    using assms by auto
qed

lemma mirrored_calls:
  assumes "\<forall>c \<in> set cs. wired_call c" and "mirrored h w" and "run_calls cs (h, w) = Some (h', w')"
  shows "mirrored h' w'"
proof -
  have "(\<lambda>s. mirrored (fst s) (snd s)) (h', w')"
  proof (rule run_calls_preserves [where P = "\<lambda>s. mirrored (fst s) (snd s)", OF _ _ assms(3)])
    fix c s s'
    assume "c \<in> set cs" and "mirrored (fst s) (snd s)" and "run_call c s = Some s'"
    then show "mirrored (fst s') (snd s')"
      using assms(1) mirrored_call [of c "fst s" "snd s" "fst s'" "snd s'"] by simp
  next
    show "mirrored (fst (h, w)) (snd (h, w))"
      using assms(2) by simp
  qed
  then show ?thesis by simp
qed

subsection \<open>The bench\<close>

lemma upt2: "[0..<2] = [0, 1::nat]"
  by (simp add: upt_rec)

lemma channel_numerals: "(5 :: 8 word) < 16" "(3 :: 8 word) < 16" "\<not> (200 :: 8 word) < 16" "\<not> (16 :: 8 word) < 16"
  "(0 :: 8 word) < 16" "(1 :: 8 word) < 16"
  by simp_all

lemma upt14: "[0..<14] = [0, 1, 2, 3, 4, 5, 6, 7, 8, 9, 10, 11, 12, 13::nat]"
  by (simp add: upt_rec)

lemma board_lines:
  "s0_line board_config = (0x40010C00, 0x0001)"
  "s1_line board_config = (0x40010C00, 0x0002)"
  "s2_line board_config = (0x40010C00, 0x0400)"
  "s3_line board_config = (0x40010C00, 0x0800)"
  "en_line board_config = (0x40010800, 0x0100)"
  by (simp_all add: s0_line_def s1_line_def s2_line_def s3_line_def en_line_def board_config_def)

lemma board_wired: "wired board_config"
  by (simp add: wired_def select_lines_def board_lines)

lemma board_distinct: "distinct (select_lines board_config)"
  by (simp add: select_lines_def board_lines)

lemma bench_init:
  "MUX_Init (Some stale_handle) (Some board_config) bench = (HAL_OK, Some ready_handle, powered)"
  by (simp add: MUX_Init_ok ready_handle_def powered_def init_log_def board_config_def bench_def)

lemma bench_ready: "adc_ready bench log" "adc_ready powered log"
  by (simp_all add: powered_def bench_def)

lemma bench_calls_wired: "list_all wired_call bench_calls"
  by (simp add: bench_calls_def board_wired)

lemma bench_run:
  "\<exists>h' w'. run_calls bench_calls (ready_handle, powered) = Some (h', w')
      \<and> current_channel h' = 1 \<and> is_enabled h'"
  by (simp add: bench_calls_def MUX_Enable_eq MUX_Disable_eq MUX_SelectChannel_eq MUX_Init_ok
      MUX_SetSettlingTime_def MUX_GetCurrentChannel_def
      MUX_ReadChannel_eq MUX_ReadAllChannels_eq upt2 channel_numerals powered_def bench_def ready_handle_def)

text \<open>
  The sweep of the 14 wired sensors on the bench, from the handle as
  \<open>MUX_Init\<close> leaves it: 113 HAL calls, 14 settle delays of 240 iterations.
\<close>

lemma read_all_14_on_bench:
  "\<exists>h' b' w'. MUX_ReadAllChannels ready_handle (Some (\<lambda>i. 0)) 14 bench = Some (HAL_OK, h', Some b', w')
      \<and> current_channel h' = 13 \<and> is_enabled h'
      \<and> map b' [0, 1, 2, 12, 13, 14] = [1007, 1015, 1023, 1103, 1111, 0]
      \<and> length (hal_log w') = 113
      \<and> nop_count w' = 14 * 240"
  by (simp add: MUX_ReadAllChannels_eq MUX_ReadChannel_eq upt14 bench_def ready_handle_def
      enable_writes_def channel_writes_def select_writes_def adc_calls_def settle_cycles_def)

section \<open>Properties of the specification\<close>

subsection \<open>Channel select\<close>

text \<open>
  C1. For every channel in 0..15, \<open>MUX_SelectChannel\<close> issues exactly four GPIO
  writes, S0 to S3 in this order, each line driven high where the bit of the
  channel with the line's number is 1 and low where it is 0; it stores the
  channel in \<open>current_channel\<close>, so that \<open>MUX_GetCurrentChannel\<close> returns it. Where
  the four select lines are four different (port, pin) pairs, each line is
  left at the level of its bit and the input the four levels address is the
  channel.
\<close>

theorem C1_select_channel:
  assumes "channel < 16"
  shows "hal_log (snd (MUX_SelectChannel hmux channel w)) =
           hal_log w @
             [GPIO_WritePin (s0_port (config hmux)) (s0_pin (config hmux)) (pin_of (bit channel 0)),
              GPIO_WritePin (s1_port (config hmux)) (s1_pin (config hmux)) (pin_of (bit channel 1)),
              GPIO_WritePin (s2_port (config hmux)) (s2_pin (config hmux)) (pin_of (bit channel 2)),
              GPIO_WritePin (s3_port (config hmux)) (s3_pin (config hmux)) (pin_of (bit channel 3))]
       \<and> current_channel (fst (MUX_SelectChannel hmux channel w)) = channel
       \<and> MUX_GetCurrentChannel (fst (MUX_SelectChannel hmux channel w)) = channel
       \<and> (distinct (select_lines (config hmux)) \<longrightarrow>
            line_level (hal_log (snd (MUX_SelectChannel hmux channel w))) (s0_line (config hmux))
              = Some (pin_of (bit channel 0))
          \<and> line_level (hal_log (snd (MUX_SelectChannel hmux channel w))) (s1_line (config hmux))
              = Some (pin_of (bit channel 1))
          \<and> line_level (hal_log (snd (MUX_SelectChannel hmux channel w))) (s2_line (config hmux))
              = Some (pin_of (bit channel 2))
          \<and> line_level (hal_log (snd (MUX_SelectChannel hmux channel w))) (s3_line (config hmux))
              = Some (pin_of (bit channel 3))
          \<and> selected_input (hal_log (snd (MUX_SelectChannel hmux channel w))) (config hmux)
              = Some (unat channel))"
proof -
  have log: "hal_log (snd (MUX_SelectChannel hmux channel w)) =
               hal_log w @ select_writes (config hmux) channel"
    by (simp add: MUX_SelectChannel_valid [OF assms])
  have cur: "current_channel (fst (MUX_SelectChannel hmux channel w)) = channel"
    by (simp add: MUX_SelectChannel_valid [OF assms])
  show ?thesis
    unfolding log
    using cur selected_input_select_writes [OF assms]
    by (simp add: MUX_GetCurrentChannel_def select_levels) (simp add: select_writes_def)
qed

theorem C1_select_channel_witness:
  "(5 :: 8 word) < 16 \<and> distinct (select_lines board_config)
   \<and> hal_log (snd (MUX_SelectChannel ready_handle 5 bench)) =
        [GPIO_WritePin 0x40010C00 0x0001 GPIO_PIN_SET,
         GPIO_WritePin 0x40010C00 0x0002 GPIO_PIN_RESET,
         GPIO_WritePin 0x40010C00 0x0400 GPIO_PIN_SET,
         GPIO_WritePin 0x40010C00 0x0800 GPIO_PIN_RESET]
   \<and> MUX_GetCurrentChannel (fst (MUX_SelectChannel ready_handle 5 bench)) = 5
   \<and> selected_input (hal_log (snd (MUX_SelectChannel ready_handle 5 bench))) board_config = Some 5"
proof -
  have lt: "(5 :: 8 word) < 16"
    by simp
  have d: "distinct (select_lines board_config)"
    by (simp add: select_lines_def s0_line_def s1_line_def s2_line_def s3_line_def board_config_def)
  have c: "config ready_handle = board_config"
    by (simp add: ready_handle_def)
  have b: "bit (5 :: 8 word) 0" "\<not> bit (5 :: 8 word) 1" "bit (5 :: 8 word) 2" "\<not> bit (5 :: 8 word) 3"
    by simp_all
  note inst = C1_select_channel [of 5 ready_handle bench, OF lt, unfolded c]
  have L: "hal_log (snd (MUX_SelectChannel ready_handle 5 bench)) =
        [GPIO_WritePin 0x40010C00 0x0001 GPIO_PIN_SET,
         GPIO_WritePin 0x40010C00 0x0002 GPIO_PIN_RESET,
         GPIO_WritePin 0x40010C00 0x0400 GPIO_PIN_SET,
         GPIO_WritePin 0x40010C00 0x0800 GPIO_PIN_RESET]"
    using inst [THEN conjunct1] by (simp add: b pin_of_def board_config_def bench_def)
  have G: "MUX_GetCurrentChannel (fst (MUX_SelectChannel ready_handle 5 bench)) = 5"
    using inst by blast
  have "selected_input (hal_log (snd (MUX_SelectChannel ready_handle 5 bench))) board_config
          = Some (unat (5 :: 8 word))"
    using inst d by blast
  then have S: "selected_input (hal_log (snd (MUX_SelectChannel ready_handle 5 bench))) board_config = Some 5"
    by simp
  show ?thesis
    by (intro conjI lt d L G S)
qed

subsection \<open>Initialisation\<close>

text \<open>
  C2. \<open>MUX_Init\<close> with a handle and a configuration returns \<open>HAL_OK\<close>; the
  handle holds a copy of the configuration, \<open>current_channel = 0\<close>,
  \<open>is_enabled = false\<close> and \<open>settling_time_us = 10\<close>, whatever it held before; the
  call drives S0 to S3 low and then the enable line high, and makes no other
  HAL call. The enable line is left high; where the enable line is none of the
  select lines, the select lines are left low.
\<close>

theorem C2_init:
  "MUX_Init (Some hmux) (Some c) w =
     (HAL_OK,
      Some \<lparr>config = c, current_channel = 0, is_enabled = False, settling_time_us = 10\<rparr>,
      w\<lparr>hal_log := hal_log w @
          [GPIO_WritePin (s0_port c) (s0_pin c) GPIO_PIN_RESET,
           GPIO_WritePin (s1_port c) (s1_pin c) GPIO_PIN_RESET,
           GPIO_WritePin (s2_port c) (s2_pin c) GPIO_PIN_RESET,
           GPIO_WritePin (s3_port c) (s3_pin c) GPIO_PIN_RESET,
           GPIO_WritePin (en_port c) (en_pin c) GPIO_PIN_SET]\<rparr>)
   \<and> MUX_Init (Some hmux) (Some c) w = MUX_Init (Some other) (Some c) w
   \<and> line_level (hal_log (snd (snd (MUX_Init (Some hmux) (Some c) w)))) (en_line c) = Some GPIO_PIN_SET
   \<and> (wired c \<longrightarrow>
        (\<forall>l \<in> set (select_lines c).
           line_level (hal_log (snd (snd (MUX_Init (Some hmux) (Some c) w)))) l = Some GPIO_PIN_RESET))"
proof -
  have lv: "line_level (hal_log (snd (snd (MUX_Init (Some hmux) (Some c) w)))) l =
     (if l = en_line c then Some GPIO_PIN_SET
      else if l \<in> set (select_lines c) then Some GPIO_PIN_RESET
      else line_level (hal_log w) l)" for l
    unfolding MUX_Init_ok init_writes_lines by (simp add: line_level_init_writes)
  have "wired c \<longrightarrow>
        (\<forall>l \<in> set (select_lines c).
           line_level (hal_log (snd (snd (MUX_Init (Some hmux) (Some c) w)))) l = Some GPIO_PIN_RESET)"
    unfolding lv by (auto simp: wired_def)
  moreover have "line_level (hal_log (snd (snd (MUX_Init (Some hmux) (Some c) w)))) (en_line c) = Some GPIO_PIN_SET"
    unfolding lv by simp
  moreover have "MUX_Init (Some hmux) (Some c) w = MUX_Init (Some other) (Some c) w"
    by (simp only: MUX_Init_ok)
  ultimately show ?thesis
    using MUX_Init_ok [of hmux c w] by blast
qed

theorem C2_init_witness:
  "wired board_config
   \<and> MUX_Init (Some stale_handle) (Some board_config) bench = (HAL_OK, Some ready_handle, powered)
   \<and> line_level (hal_log powered) (en_line board_config) = Some GPIO_PIN_SET
   \<and> line_level (hal_log powered) (s0_line board_config) = Some GPIO_PIN_RESET
   \<and> line_level (hal_log powered) (s1_line board_config) = Some GPIO_PIN_RESET
   \<and> line_level (hal_log powered) (s2_line board_config) = Some GPIO_PIN_RESET
   \<and> line_level (hal_log powered) (s3_line board_config) = Some GPIO_PIN_RESET"
proof -
  note inst = C2_init [of stale_handle board_config bench]
  have eq: "MUX_Init (Some stale_handle) (Some board_config) bench
              = (HAL_OK, Some ready_handle, powered)"
    using inst [THEN conjunct1]
    by (simp add: ready_handle_def powered_def init_log_def board_config_def bench_def)
  have en: "line_level (hal_log powered) (en_line board_config) = Some GPIO_PIN_SET"
    using inst [THEN conjunct2, THEN conjunct2, THEN conjunct1] by (simp add: eq)
  have sel: "\<forall>l \<in> set (select_lines board_config).
               line_level (hal_log powered) l = Some GPIO_PIN_RESET"
    using inst [THEN conjunct2, THEN conjunct2, THEN conjunct2] board_wired by (simp add: eq)
  show ?thesis
    using board_wired eq en sel by (simp add: select_lines_def)
qed

subsection \<open>Out-of-range channel select\<close>

text \<open>
  C3. For every channel of 16 or more, \<open>MUX_SelectChannel\<close> returns the handle
  and the hardware as they were: no HAL call is made, no field changes, and
  the function has no status to report. In every state reached from a
  successful \<open>MUX_Init\<close> by a sequence of driver calls, \<open>current_channel\<close> is in
  the range 0 to 15.
\<close>

theorem C3_select_out_of_range:
  "(16 \<le> channel \<longrightarrow> MUX_SelectChannel hmux channel w = (hmux, w))
   \<and> (MUX_Init hopt cfg boot = (HAL_OK, Some hi, wi) \<and> run_calls cs (hi, wi) = Some (h', w')
        \<longrightarrow> current_channel h' < 16 \<and> unat (MUX_GetCurrentChannel h') \<in> {0..15})"
proof -
  have "current_channel h' < 16"
    if init: "MUX_Init hopt cfg boot = (HAL_OK, Some hi, wi)"
      and run: "run_calls cs (hi, wi) = Some (h', w')"
  proof -
    have "channel_ok (hi, wi)"
      using MUX_Init_HAL_OK [OF init] by (auto simp: channel_ok_def)
    then have "channel_ok (h', w')"
      using run by (rule channel_ok_calls)
    then show ?thesis
      by (simp add: channel_ok_def)
  qed
  moreover have "unat x \<in> {0..15}" if "x < 16" for x :: "8 word"
    using that by (simp add: word_less_nat_alt)
  ultimately show ?thesis
    by (auto simp: MUX_SelectChannel_invalid MUX_GetCurrentChannel_def)
qed

theorem C3_select_out_of_range_witness:
  "(16 :: 8 word) \<le> 200
   \<and> MUX_SelectChannel ready_handle 200 powered = (ready_handle, powered)
   \<and> MUX_Init (Some stale_handle) (Some board_config) bench = (HAL_OK, Some ready_handle, powered)
   \<and> (\<exists>h' w'. run_calls bench_calls (ready_handle, powered) = Some (h', w')
          \<and> current_channel h' = 1 \<and> current_channel h' < 16)"
proof -
  have le: "(16 :: 8 word) \<le> 200"
    by simp
  obtain h' w' where run: "run_calls bench_calls (ready_handle, powered) = Some (h', w')"
    and cur: "current_channel h' = 1"
    using bench_run by blast
  note inst = C3_select_out_of_range [where channel = 200 and hmux = ready_handle and w = powered
      and hopt = "Some stale_handle" and cfg = "Some board_config" and boot = bench
      and hi = ready_handle and wi = powered and cs = bench_calls and h' = h' and w' = w']
  have sel: "MUX_SelectChannel ready_handle 200 powered = (ready_handle, powered)"
    using inst le by blast
  have "current_channel h' < 16"
    using inst bench_init run by blast
  then show ?thesis
    using le sel bench_init run cur by blast
qed

subsection \<open>Error returns\<close>

text \<open>
  C4. \<open>MUX_Init\<close> returns \<open>HAL_ERROR\<close> exactly when the handle or the
  configuration is null, and \<open>MUX_ReadAllChannels\<close> returns \<open>HAL_ERROR\<close> exactly when
  the buffer is null or the count exceeds 16. In each of these cases the call
  makes no HAL call and leaves the handle, the buffer and the hardware as they
  were. The other functions of the driver return no status.
\<close>

theorem C4_error_returns:
  "(fst (MUX_Init hopt cfg w) = HAL_ERROR \<longleftrightarrow> hopt = None \<or> cfg = None)
   \<and> (fst (MUX_Init hopt cfg w) \<noteq> HAL_ERROR \<longrightarrow> fst (MUX_Init hopt cfg w) = HAL_OK)
   \<and> (hopt = None \<or> cfg = None \<longrightarrow> MUX_Init hopt cfg w = (HAL_ERROR, hopt, w))
   \<and> ((\<exists>h' d' w'. MUX_ReadAllChannels hmux data n w = Some (HAL_ERROR, h', d', w'))
          \<longleftrightarrow> data = None \<or> 16 < n)
   \<and> (\<forall>st h' d' w'. MUX_ReadAllChannels hmux data n w = Some (st, h', d', w') \<longrightarrow>
          st = (if data = None \<or> 16 < n then HAL_ERROR else HAL_OK))
   \<and> (data = None \<or> 16 < n \<longrightarrow>
          MUX_ReadAllChannels hmux data n w = Some (HAL_ERROR, hmux, data, w))"
proof -
  have init: "fst (MUX_Init hopt cfg w) = (if hopt = None \<or> cfg = None then HAL_ERROR else HAL_OK)"
    by (cases hopt; cases cfg) (simp_all add: MUX_Init_null MUX_Init_ok)
  have err: "MUX_ReadAllChannels hmux data n w = Some (HAL_ERROR, hmux, data, w)"
    if "data = None \<or> 16 < n"
    using that by (auto simp: MUX_ReadAllChannels_eq split: option.splits)
  have ok: "st = HAL_OK"
    if "\<not> (data = None \<or> 16 < n)"
      and "MUX_ReadAllChannels hmux data n w = Some (st, h', d', w')" for st h' d' w'
    using that by (auto simp: MUX_ReadAllChannels_eq split: option.splits)
  have status: "st = (if data = None \<or> 16 < n then HAL_ERROR else HAL_OK)"
    if r: "MUX_ReadAllChannels hmux data n w = Some (st, h', d', w')" for st h' d' w'
  proof (cases "data = None \<or> 16 < n")
    case True
    from err [OF True] r have "st = HAL_ERROR"
      by simp
    with True show ?thesis
      by simp
  next
    case False
    from ok [OF False r] False show ?thesis
      by simp
  qed
  have iff: "(\<exists>h' d' w'. MUX_ReadAllChannels hmux data n w = Some (HAL_ERROR, h', d', w'))
          \<longleftrightarrow> data = None \<or> 16 < n"
  proof
    assume "\<exists>h' d' w'. MUX_ReadAllChannels hmux data n w = Some (HAL_ERROR, h', d', w')"
    then obtain h' d' w' where r: "MUX_ReadAllChannels hmux data n w = Some (HAL_ERROR, h', d', w')"
      by blast
    show "data = None \<or> 16 < n"
    proof (rule ccontr)
      assume "\<not> (data = None \<or> 16 < n)"
      from ok [OF this r] show False
        by simp
    qed
  next
    assume "data = None \<or> 16 < n"
    from err [OF this] show "\<exists>h' d' w'. MUX_ReadAllChannels hmux data n w = Some (HAL_ERROR, h', d', w')"
      by blast
  qed
  have init_iff: "fst (MUX_Init hopt cfg w) = HAL_ERROR \<longleftrightarrow> hopt = None \<or> cfg = None"
    and init_ok: "fst (MUX_Init hopt cfg w) \<noteq> HAL_ERROR \<longrightarrow> fst (MUX_Init hopt cfg w) = HAL_OK"
    unfolding init by simp_all
  have init_null: "hopt = None \<or> cfg = None \<longrightarrow> MUX_Init hopt cfg w = (HAL_ERROR, hopt, w)"
    using MUX_Init_null [of hopt cfg w] by blast
  have err_imp: "data = None \<or> 16 < n \<longrightarrow>
          MUX_ReadAllChannels hmux data n w = Some (HAL_ERROR, hmux, data, w)"
    using err by blast
  have status_all: "\<forall>st h' d' w'. MUX_ReadAllChannels hmux data n w = Some (st, h', d', w') \<longrightarrow>
          st = (if data = None \<or> 16 < n then HAL_ERROR else HAL_OK)"
    using status by blast
  show ?thesis
    by (intro conjI init_iff init_ok init_null iff status_all err_imp)
qed

theorem C4_error_returns_witness:
  "MUX_Init None (Some board_config) bench = (HAL_ERROR, None, bench)
   \<and> MUX_Init (Some stale_handle) None bench = (HAL_ERROR, Some stale_handle, bench)
   \<and> fst (MUX_Init (Some stale_handle) (Some board_config) bench) = HAL_OK
   \<and> MUX_ReadAllChannels ready_handle (Some (\<lambda>i. 0)) 17 powered
        = Some (HAL_ERROR, ready_handle, Some (\<lambda>i. 0), powered)
   \<and> MUX_ReadAllChannels ready_handle None 3 powered
        = Some (HAL_ERROR, ready_handle, None, powered)
   \<and> \<not> (\<exists>h' d' w'. MUX_ReadAllChannels ready_handle (Some (\<lambda>i. 0)) 16 powered
                = Some (HAL_ERROR, h', d', w'))"
proof -
  have a: "MUX_Init None (Some board_config) bench = (HAL_ERROR, None, bench)"
    using C4_error_returns [where hopt = None and cfg = "Some board_config" and w = bench,
        THEN conjunct2, THEN conjunct2, THEN conjunct1]
    by simp
  have b: "MUX_Init (Some stale_handle) None bench = (HAL_ERROR, Some stale_handle, bench)"
    using C4_error_returns [where hopt = "Some stale_handle" and cfg = None and w = bench,
        THEN conjunct2, THEN conjunct2, THEN conjunct1]
    by simp
  note init = C4_error_returns [where hopt = "Some stale_handle" and cfg = "Some board_config"
        and w = bench]
  have "fst (MUX_Init (Some stale_handle) (Some board_config) bench) \<noteq> HAL_ERROR"
    using init [THEN conjunct1] by simp
  then have c: "fst (MUX_Init (Some stale_handle) (Some board_config) bench) = HAL_OK"
    using init [THEN conjunct2, THEN conjunct1] by simp
  have d: "MUX_ReadAllChannels ready_handle (Some (\<lambda>i. 0)) 17 powered
        = Some (HAL_ERROR, ready_handle, Some (\<lambda>i. 0), powered)"
    using C4_error_returns [where hmux = ready_handle and data = "Some (\<lambda>i. 0)" and n = 17
        and w = powered, THEN conjunct2, THEN conjunct2, THEN conjunct2, THEN conjunct2,
        THEN conjunct2]
    by simp
  have e: "MUX_ReadAllChannels ready_handle None 3 powered
        = Some (HAL_ERROR, ready_handle, None, powered)"
    using C4_error_returns [where hmux = ready_handle and data = None and n = 3 and w = powered,
        THEN conjunct2, THEN conjunct2, THEN conjunct2, THEN conjunct2, THEN conjunct2]
    by simp
  have f: "\<not> (\<exists>h' d' w'. MUX_ReadAllChannels ready_handle (Some (\<lambda>i. 0)) 16 powered
                = Some (HAL_ERROR, h', d', w'))"
    using C4_error_returns [where hmux = ready_handle and data = "Some (\<lambda>i. 0)" and n = 16
        and w = powered, THEN conjunct2, THEN conjunct2, THEN conjunct2, THEN conjunct1]
    by simp
  show ?thesis
    by (intro conjI a b c d e f)
qed

subsection \<open>The batch read\<close>

text \<open>
  C5. For every count of at most 16 and a buffer that is not null,
  \<open>MUX_ReadAllChannels\<close> is the batch read of the specification: it enables the
  multiplexer if needed and performs the single-channel read of the channels
  0 to \<open>count - 1\<close> in ascending order, storing the result of channel \<open>i\<close> in
  \<open>buffer[i]\<close>. It returns when each of these reads returns, which they do when
  the ADC completes every conversion, and then its status is \<open>HAL_OK\<close>, the
  buffer is unchanged from index \<open>count\<close> on, and \<open>current_channel\<close> is
  \<open>count - 1\<close> for a count that is not zero: 13 for a count of 14.
\<close>

theorem C5_read_all_channels:
  assumes "n \<le> 16"
  shows "MUX_ReadAllChannels hmux (Some buffer) n w = read_all_spec hmux buffer (unat n) w
   \<and> ((\<forall>log. adc_ready w log) \<longrightarrow>
         (\<exists>h' b' w'. MUX_ReadAllChannels hmux (Some buffer) n w = Some (HAL_OK, h', Some b', w')))
   \<and> (\<forall>st h' d' w'. MUX_ReadAllChannels hmux (Some buffer) n w = Some (st, h', d', w') \<longrightarrow>
         st = HAL_OK
         \<and> (\<exists>b'. d' = Some b'
              \<and> (\<forall>i < unat n. \<exists>hi bi wi h2 w2.
                     sweep [0..<i] (fst (if is_enabled hmux then (hmux, w) else MUX_Enable hmux w))
                       buffer (snd (if is_enabled hmux then (hmux, w) else MUX_Enable hmux w))
                       = Some (hi, bi, wi)
                   \<and> MUX_ReadChannel hi (of_nat i) wi = Some (b' i, h2, w2))
              \<and> (\<forall>j \<ge> unat n. b' j = buffer j))
         \<and> (0 < n \<longrightarrow> current_channel h' = n - 1)
         \<and> (n = 14 \<longrightarrow> current_channel h' = 13))"
proof -
  let ?h1 = "hmux\<lparr>is_enabled := True\<rparr>"
  let ?w1 = "w\<lparr>hal_log := hal_log w @ enable_writes hmux\<rparr>"
  have en: "(if is_enabled hmux then (hmux, w) else MUX_Enable hmux w) = (?h1, ?w1)"
    using ensure_enabled_eq [of hmux w] by (cases "is_enabled hmux") simp_all
  have spec: "MUX_ReadAllChannels hmux (Some buffer) n w = read_all_spec hmux buffer (unat n) w"
    using assms by (rule MUX_ReadAllChannels_spec)
  have ret: "\<exists>h' b' w'. MUX_ReadAllChannels hmux (Some buffer) n w = Some (HAL_OK, h', Some b', w')"
    if "\<forall>log. adc_ready w log"
  proof -
    have "\<forall>log. adc_ready ?w1 log"
      using that by simp
    from sweep_returns [OF this, of "[0..<unat n]" ?h1 buffer]
    show ?thesis
      unfolding spec read_all_spec_eq by auto
  qed
  have post: "st = HAL_OK
         \<and> (\<exists>b'. d' = Some b'
              \<and> (\<forall>i < unat n. \<exists>hi bi wi h2 w2.
                     sweep [0..<i] (fst (if is_enabled hmux then (hmux, w) else MUX_Enable hmux w))
                       buffer (snd (if is_enabled hmux then (hmux, w) else MUX_Enable hmux w))
                       = Some (hi, bi, wi)
                   \<and> MUX_ReadChannel hi (of_nat i) wi = Some (b' i, h2, w2))
              \<and> (\<forall>j \<ge> unat n. b' j = buffer j))
         \<and> (0 < n \<longrightarrow> current_channel h' = n - 1)
         \<and> (n = 14 \<longrightarrow> current_channel h' = 13)"
    if r: "MUX_ReadAllChannels hmux (Some buffer) n w = Some (st, h', d', w')" for st h' d' w'
  proof -
    obtain b' where sw: "sweep [0..<unat n] ?h1 buffer ?w1 = Some (h', b', w')"
      and st: "st = HAL_OK" and d': "d' = Some b'"
      using r unfolding spec read_all_spec_eq by (auto split: option.splits)
    have idx: "\<forall>i < unat n. \<exists>hi bi wi h2 w2.
                 sweep [0..<i] ?h1 buffer ?w1 = Some (hi, bi, wi)
               \<and> MUX_ReadChannel hi (of_nat i) wi = Some (b' i, h2, w2)"
      using sweep_index [OF sw] by blast
    have other: "\<forall>j \<ge> unat n. b' j = buffer j"
      using sweep_buffer_other [OF sw] by simp
    have le: "unat n \<le> 16"
      using assms by (simp add: word_le_nat_alt)
    have last: "current_channel h' = n - 1" if "0 < n"
    proof -
      have pos: "0 < unat n"
        using that by (simp add: word_less_nat_alt)
      then have "[0..<unat n] \<noteq> []" and "last [0..<unat n] = unat n - 1"
        by simp_all
      moreover have "\<forall>j \<in> set [0..<unat n]. j < 16"
        using le by auto
      ultimately have "current_channel h' = of_nat (unat n - 1)"
        using sweep_last_channel [OF sw] by simp
      then show ?thesis
        using word_pred [OF that] by simp
    qed
    have "current_channel h' = 13" if "n = 14"
      using last that by simp
    then show ?thesis
      using st d' idx other last unfolding en by simp
  qed
  show ?thesis
    using spec ret post by blast
qed

theorem C5_read_all_channels_witness:
  "(14 :: 8 word) \<le> 16 \<and> (\<forall>log. adc_ready bench log)
   \<and> (\<exists>h' b' w'. MUX_ReadAllChannels ready_handle (Some (\<lambda>i. 0)) 14 bench
                     = Some (HAL_OK, h', Some b', w')
          \<and> current_channel h' = 13 \<and> b' 14 = 0)"
proof -
  have le: "(14 :: 8 word) \<le> 16"
    by simp
  have ready: "\<forall>log. adc_ready bench log"
    by (simp add: bench_ready)
  note inst = C5_read_all_channels [where n = 14 and hmux = ready_handle
      and buffer = "\<lambda>i. 0" and w = bench, OF le]
  obtain h' b' w' where r: "MUX_ReadAllChannels ready_handle (Some (\<lambda>i. 0)) 14 bench
                     = Some (HAL_OK, h', Some b', w')"
    using inst ready by blast
  have post: "(\<exists>b''. Some b' = Some b'' \<and> (\<forall>j \<ge> unat (14 :: 8 word). b'' j = 0))
      \<and> current_channel h' = 13"
    using inst [THEN conjunct2, THEN conjunct2, rule_format, OF r] by blast
  then have "b' 14 = 0"
    by simp
  then show ?thesis
    using le ready r post by blast
qed

subsection \<open>Reads enable the multiplexer\<close>

text \<open>
  C6. A \<open>MUX_ReadChannel\<close> that returns leaves \<open>is_enabled\<close> set. On a disabled
  handle its first HAL call drives the enable line low, before the select
  lines are written and before the ADC is started; on an enabled handle it
  makes no call on the enable line of its own. A \<open>MUX_ReadAllChannels\<close> that
  returns \<open>HAL_OK\<close> leaves \<open>is_enabled\<close> set, and no return of either read clears
  a flag that was set. \<open>MUX_ReadChannel\<close> returns exactly when the ADC completes
  the conversion it polls.
\<close>

theorem C6_reads_enable:
  "(\<forall>v h' w'. MUX_ReadChannel hmux channel w = Some (v, h', w') \<longrightarrow>
       is_enabled h'
     \<and> (\<not> is_enabled hmux \<longrightarrow>
          hal_log w' = hal_log w
            @ GPIO_WritePin (en_port (config hmux)) (en_pin (config hmux)) GPIO_PIN_RESET
            # channel_writes (config hmux) channel @ adc_calls (config hmux))
     \<and> (is_enabled hmux \<longrightarrow>
          hal_log w' = hal_log w @ channel_writes (config hmux) channel @ adc_calls (config hmux)))
   \<and> (\<forall>st h' d' w'. MUX_ReadAllChannels hmux data n w = Some (st, h', d', w') \<longrightarrow>
         (st = HAL_OK \<longrightarrow> is_enabled h') \<and> (is_enabled hmux \<longrightarrow> is_enabled h'))
   \<and> ((\<exists>v h' w'. MUX_ReadChannel hmux channel w = Some (v, h', w')) \<longleftrightarrow>
        adc_ready w (hal_log w @ enable_writes hmux @ channel_writes (config hmux) channel
                       @ [ADC_Start (hadc (config hmux))]))"
proof -
  have rc: "is_enabled h'
     \<and> (\<not> is_enabled hmux \<longrightarrow>
          hal_log w' = hal_log w
            @ GPIO_WritePin (en_port (config hmux)) (en_pin (config hmux)) GPIO_PIN_RESET
            # channel_writes (config hmux) channel @ adc_calls (config hmux))
     \<and> (is_enabled hmux \<longrightarrow>
          hal_log w' = hal_log w @ channel_writes (config hmux) channel @ adc_calls (config hmux))"
    if "MUX_ReadChannel hmux channel w = Some (v, h', w')" for v h' w'
    using MUX_ReadChannel_SomeD(1,8) [OF that] by (simp add: enable_writes_def)
  have ra: "(st = HAL_OK \<longrightarrow> is_enabled h') \<and> (is_enabled hmux \<longrightarrow> is_enabled h')"
    if r: "MUX_ReadAllChannels hmux data n w = Some (st, h', d', w')" for st h' d' w'
  proof (cases "data = None \<or> 16 < n")
    case True
    then show ?thesis
      using r by (auto simp: MUX_ReadAllChannels_eq split: option.splits)
  next
    case False
    then obtain d b' where sw: "sweep [0..<unat n] (hmux\<lparr>is_enabled := True\<rparr>) d
                (w\<lparr>hal_log := hal_log w @ enable_writes hmux\<rparr>) = Some (h', b', w')"
      using r by (auto simp: MUX_ReadAllChannels_eq split: option.splits)
    have "is_enabled h'"
      using sweep_preserves [where P = "\<lambda>h w. is_enabled h", OF _ _ sw]
        MUX_ReadChannel_SomeD(1) by simp
    then show ?thesis by simp
  qed
  have ex: "(\<exists>v h' w'. MUX_ReadChannel hmux channel w = Some (v, h', w')) \<longleftrightarrow>
        adc_ready w (hal_log w @ enable_writes hmux @ channel_writes (config hmux) channel
                       @ [ADC_Start (hadc (config hmux))])"
    by (simp add: MUX_ReadChannel_eq)
  show ?thesis
    using rc ra ex by blast
qed

theorem C6_reads_enable_witness:
  "\<not> is_enabled ready_handle
   \<and> (\<exists>v h' w'. MUX_ReadChannel ready_handle 3 powered = Some (v, h', w')
          \<and> is_enabled h'
          \<and> hal_log w' = init_log @
               [GPIO_WritePin 0x40010800 0x0100 GPIO_PIN_RESET,
                GPIO_WritePin 0x40010C00 0x0001 GPIO_PIN_SET,
                GPIO_WritePin 0x40010C00 0x0002 GPIO_PIN_SET,
                GPIO_WritePin 0x40010C00 0x0400 GPIO_PIN_RESET,
                GPIO_WritePin 0x40010C00 0x0800 GPIO_PIN_RESET,
                ADC_Start 0x20000100,
                ADC_PollForConversion 0x20000100 0xFFFFFFFF,
                ADC_GetValue 0x20000100,
                ADC_Stop 0x20000100])
   \<and> (\<exists>h' d' w'. MUX_ReadAllChannels ready_handle (Some (\<lambda>i. 0)) 14 bench
                     = Some (HAL_OK, h', d', w')
          \<and> is_enabled h')"
proof -
  have dis: "\<not> is_enabled ready_handle"
    by (simp add: ready_handle_def)
  note inst = C6_reads_enable [where hmux = ready_handle and channel = 3 and w = powered]
  obtain v h' w' where r: "MUX_ReadChannel ready_handle 3 powered = Some (v, h', w')"
    using inst bench_ready(2) by blast
  have en: "is_enabled h'"
    and log: "hal_log w' = hal_log powered
            @ GPIO_WritePin (en_port (config ready_handle)) (en_pin (config ready_handle))
                GPIO_PIN_RESET
            # channel_writes (config ready_handle) 3 @ adc_calls (config ready_handle)"
    using inst r dis by blast+
  have "hal_log w' = init_log @
               [GPIO_WritePin 0x40010800 0x0100 GPIO_PIN_RESET,
                GPIO_WritePin 0x40010C00 0x0001 GPIO_PIN_SET,
                GPIO_WritePin 0x40010C00 0x0002 GPIO_PIN_SET,
                GPIO_WritePin 0x40010C00 0x0400 GPIO_PIN_RESET,
                GPIO_WritePin 0x40010C00 0x0800 GPIO_PIN_RESET,
                ADC_Start 0x20000100,
                ADC_PollForConversion 0x20000100 0xFFFFFFFF,
                ADC_GetValue 0x20000100,
                ADC_Stop 0x20000100]"
    unfolding log
    by (simp add: powered_def ready_handle_def board_config_def channel_writes_def
        select_writes_def adc_calls_def pin_of_def HAL_MAX_DELAY_def)
  then have single: "\<exists>v h' w'. MUX_ReadChannel ready_handle 3 powered = Some (v, h', w')
          \<and> is_enabled h'
          \<and> hal_log w' = init_log @
               [GPIO_WritePin 0x40010800 0x0100 GPIO_PIN_RESET,
                GPIO_WritePin 0x40010C00 0x0001 GPIO_PIN_SET,
                GPIO_WritePin 0x40010C00 0x0002 GPIO_PIN_SET,
                GPIO_WritePin 0x40010C00 0x0400 GPIO_PIN_RESET,
                GPIO_WritePin 0x40010C00 0x0800 GPIO_PIN_RESET,
                ADC_Start 0x20000100,
                ADC_PollForConversion 0x20000100 0xFFFFFFFF,
                ADC_GetValue 0x20000100,
                ADC_Stop 0x20000100]"
    using r en by blast
  obtain h2 b2 w2 where all: "MUX_ReadAllChannels ready_handle (Some (\<lambda>i. 0)) 14 bench
                     = Some (HAL_OK, h2, Some b2, w2)"
    using read_all_14_on_bench by blast
  have "is_enabled h2"
    using C6_reads_enable [where hmux = ready_handle and data = "Some (\<lambda>i. 0)" and n = 14
        and w = bench] all
    by blast
  then have batch: "\<exists>h' d' w'. MUX_ReadAllChannels ready_handle (Some (\<lambda>i. 0)) 14 bench
                     = Some (HAL_OK, h', d', w')
          \<and> is_enabled h'"
    using all by blast
  show ?thesis
    by (intro conjI dis single batch)
qed

subsection \<open>The enable flag mirrors the enable line\<close>

text \<open>
  C7, amended. \<open>MUX_Init\<close> checks its arguments against \<open>NULL\<close> only, so the
  invariant needs the wiring as a condition: take a configuration whose enable
  line is none of its select lines. In every state reached from a successful
  \<open>MUX_Init\<close> with it by a sequence of driver calls (a later \<open>MUX_Init\<close> in the
  sequence takes such a configuration too), \<open>is_enabled\<close> is set exactly when
  the enable line was last driven low, its active level, and clear exactly
  when the line was last driven high.
\<close>

theorem C7_enable_mirrors_line:
  assumes "MUX_Init hopt (Some c) boot = (HAL_OK, Some hi, wi)"
    and "wired c"
    and "\<forall>call \<in> set cs. wired_call call"
    and "run_calls cs (hi, wi) = Some (h', w')"
  shows "(is_enabled h' \<longleftrightarrow> line_level (hal_log w') (en_line (config h')) = Some GPIO_PIN_RESET)
       \<and> (\<not> is_enabled h' \<longleftrightarrow> line_level (hal_log w') (en_line (config h')) = Some GPIO_PIN_SET)"
proof -
  have "mirrored hi wi"
    using MUX_Init_HAL_OK [OF assms(1)] assms(2)
    by (auto simp: mirrored_def enable_mirrored_def line_level_init_writes)
  then have "mirrored h' w'"
    using assms(3,4) mirrored_calls by blast
  then show ?thesis
    by (auto simp: mirrored_def enable_mirrored_def)
qed

theorem C7_enable_mirrors_line_witness:
  "MUX_Init (Some stale_handle) (Some board_config) bench = (HAL_OK, Some ready_handle, powered)
   \<and> wired board_config \<and> list_all wired_call bench_calls
   \<and> (\<exists>h' w'. run_calls bench_calls (ready_handle, powered) = Some (h', w')
          \<and> is_enabled h'
          \<and> line_level (hal_log w') (en_line (config h')) = Some GPIO_PIN_RESET)"
proof -
  obtain h' w' where run: "run_calls bench_calls (ready_handle, powered) = Some (h', w')"
    and en: "is_enabled h'"
    using bench_run by blast
  have all: "\<forall>call \<in> set bench_calls. wired_call call"
    using bench_calls_wired by (simp add: list_all_iff)
  have "line_level (hal_log w') (en_line (config h')) = Some GPIO_PIN_RESET"
    using C7_enable_mirrors_line [OF bench_init board_wired all run] en by blast
  then show ?thesis
    using bench_init board_wired bench_calls_wired run en by blast
qed

text \<open>
  Without the condition the invariant fails. With the enable line on the pin
  of S0, \<open>MUX_Init\<close> succeeds and leaves the handle disabled and that pin high;
  a select of channel 0 then writes S0 low, which is the enable pin: the
  handle is still disabled and the enable line was last driven low, its
  active level.
\<close>

theorem C7_enable_mirrors_line_counterexample:
  "MUX_Init (Some stale_handle) (Some shared_pin_config) bench
     = (HAL_OK, Some shared_pin_handle, shared_pin_powered)
   \<and> run_calls [Call_SelectChannel 0] (shared_pin_handle, shared_pin_powered)
     = Some (shared_pin_handle, shared_pin_selected)
   \<and> \<not> is_enabled shared_pin_handle
   \<and> line_level (hal_log shared_pin_selected) (en_line (config shared_pin_handle))
     = Some GPIO_PIN_RESET
   \<and> \<not> wired shared_pin_config"
proof -
  have init: "MUX_Init (Some stale_handle) (Some shared_pin_config) bench
     = (HAL_OK, Some shared_pin_handle, shared_pin_powered)"
    by (simp add: MUX_Init_ok shared_pin_handle_def shared_pin_powered_def
        shared_pin_init_log_def shared_pin_config_def board_config_def bench_def)
  have zero: "(0 :: 8 word) < 16"
    by simp
  have "MUX_SelectChannel shared_pin_handle 0 shared_pin_powered
          = (shared_pin_handle, shared_pin_selected)"
    by (simp add: MUX_SelectChannel_valid [OF zero] select_writes_def pin_of_def
        settle_cycles_def shared_pin_handle_def shared_pin_powered_def shared_pin_selected_def
        shared_pin_config_def board_config_def bench_def)
  then have run: "run_calls [Call_SelectChannel 0] (shared_pin_handle, shared_pin_powered)
     = Some (shared_pin_handle, shared_pin_selected)"
    by simp
  have flag: "\<not> is_enabled shared_pin_handle"
    by (simp add: shared_pin_handle_def)
  have line: "en_line (config shared_pin_handle) = (0x40010C00, 0x0001)"
    by (simp add: en_line_def shared_pin_handle_def shared_pin_config_def)
  have level: "line_level (hal_log shared_pin_selected) (en_line (config shared_pin_handle))
     = Some GPIO_PIN_RESET"
    unfolding line by (simp add: shared_pin_selected_def shared_pin_init_log_def)
  have unwired: "\<not> wired shared_pin_config"
    by (simp add: wired_def select_lines_def s0_line_def en_line_def shared_pin_config_def
        board_config_def)
  show ?thesis
    by (intro conjI init run flag level unwired)
qed

subsection \<open>Enable and disable\<close>

text \<open>
  C8. \<open>MUX_Enable\<close> twice in a row leaves the handle as one call does, and
  every line at the level one call leaves it at: the second call repeats the
  write of the first. The same holds for \<open>MUX_Disable\<close>. \<open>MUX_Enable\<close> followed
  by \<open>MUX_Disable\<close> leaves \<open>is_enabled\<close> clear and the enable line high, its
  inactive level.
\<close>

theorem C8_enable_disable_idempotent:
  "(case MUX_Enable hmux w of (h1, w1) \<Rightarrow>
      case MUX_Enable h1 w1 of (h2, w2) \<Rightarrow>
        h2 = h1
      \<and> line_level (hal_log w1) (en_line (config h1)) = Some GPIO_PIN_RESET
      \<and> (\<forall>l. line_level (hal_log w2) l = line_level (hal_log w1) l)
      \<and> w2 = w1\<lparr>hal_log := hal_log w1 @
                 [GPIO_WritePin (en_port (config hmux)) (en_pin (config hmux)) GPIO_PIN_RESET]\<rparr>)
   \<and> (case MUX_Disable hmux w of (h1, w1) \<Rightarrow>
      case MUX_Disable h1 w1 of (h2, w2) \<Rightarrow>
        h2 = h1
      \<and> line_level (hal_log w1) (en_line (config h1)) = Some GPIO_PIN_SET
      \<and> (\<forall>l. line_level (hal_log w2) l = line_level (hal_log w1) l)
      \<and> w2 = w1\<lparr>hal_log := hal_log w1 @
                 [GPIO_WritePin (en_port (config hmux)) (en_pin (config hmux)) GPIO_PIN_SET]\<rparr>)
   \<and> (case MUX_Enable hmux w of (h1, w1) \<Rightarrow>
      case MUX_Disable h1 w1 of (h2, w2) \<Rightarrow>
        \<not> is_enabled h2
      \<and> h2 = hmux\<lparr>is_enabled := False\<rparr>
      \<and> line_level (hal_log w2) (en_line (config h2)) = Some GPIO_PIN_SET)"
proof -
  let ?low = "GPIO_WritePin (en_port (config hmux)) (en_pin (config hmux)) GPIO_PIN_RESET"
  let ?high = "GPIO_WritePin (en_port (config hmux)) (en_pin (config hmux)) GPIO_PIN_SET"
  have twice: "line_level ((log @ [c]) @ [c]) l = line_level (log @ [c]) l" for log c l
    by (simp add: line_level_append split: option.splits hal_call.splits)
  have en: "line_level (log @ [?low]) (en_line (config hmux)) = Some GPIO_PIN_RESET"
    and dis: "line_level (log @ [?high]) (en_line (config hmux)) = Some GPIO_PIN_SET" for log
    by (simp_all add: line_level_append en_line_def)
  have enable_twice:
    "case MUX_Enable hmux w of (h1, w1) \<Rightarrow>
      case MUX_Enable h1 w1 of (h2, w2) \<Rightarrow>
        h2 = h1
      \<and> line_level (hal_log w1) (en_line (config h1)) = Some GPIO_PIN_RESET
      \<and> (\<forall>l. line_level (hal_log w2) l = line_level (hal_log w1) l)
      \<and> w2 = w1\<lparr>hal_log := hal_log w1 @ [?low]\<rparr>"
    using twice [of "hal_log w" ?low] en [of "hal_log w"] by (simp add: MUX_Enable_eq)
  have disable_twice:
    "case MUX_Disable hmux w of (h1, w1) \<Rightarrow>
      case MUX_Disable h1 w1 of (h2, w2) \<Rightarrow>
        h2 = h1
      \<and> line_level (hal_log w1) (en_line (config h1)) = Some GPIO_PIN_SET
      \<and> (\<forall>l. line_level (hal_log w2) l = line_level (hal_log w1) l)
      \<and> w2 = w1\<lparr>hal_log := hal_log w1 @ [?high]\<rparr>"
    using twice [of "hal_log w" ?high] dis [of "hal_log w"] by (simp add: MUX_Disable_eq)
  have enable_disable:
    "case MUX_Enable hmux w of (h1, w1) \<Rightarrow>
      case MUX_Disable h1 w1 of (h2, w2) \<Rightarrow>
        \<not> is_enabled h2
      \<and> h2 = hmux\<lparr>is_enabled := False\<rparr>
      \<and> line_level (hal_log w2) (en_line (config h2)) = Some GPIO_PIN_SET"
    using dis [of "hal_log w @ [?low]"] by (simp add: MUX_Enable_eq MUX_Disable_eq)
  show ?thesis
    using enable_twice disable_twice enable_disable by (intro conjI)
qed

theorem C8_enable_disable_idempotent_witness:
  "fst (MUX_Enable (fst (MUX_Enable ready_handle powered)) (snd (MUX_Enable ready_handle powered)))
     = fst (MUX_Enable ready_handle powered)
   \<and> is_enabled (fst (MUX_Enable ready_handle powered))
   \<and> line_level (hal_log (snd (MUX_Enable ready_handle powered))) (en_line board_config)
       = Some GPIO_PIN_RESET
   \<and> \<not> is_enabled
        (fst (MUX_Disable (fst (MUX_Enable ready_handle powered))
               (snd (MUX_Enable ready_handle powered))))
   \<and> line_level
        (hal_log (snd (MUX_Disable (fst (MUX_Enable ready_handle powered))
                         (snd (MUX_Enable ready_handle powered)))))
        (en_line board_config) = Some GPIO_PIN_SET"
  using C8_enable_disable_idempotent [of ready_handle powered]
  by (simp add: case_prod_beta MUX_Enable_eq MUX_Disable_eq ready_handle_def)

subsection \<open>The settling time\<close>

text \<open>
  C9. \<open>MUX_SetSettlingTime\<close> stores any 16-bit value, zero included, in
  \<open>settling_time_us\<close> and changes no other field of the handle; it takes no
  hardware and makes no HAL call. With the value zero the delay loop of a
  channel select that follows runs no iteration; with a value \<open>t\<close> it runs
  \<open>(SystemCoreClock / 1000000) * t / 3\<close> iterations, in 32-bit arithmetic.
\<close>

theorem C9_set_settling_time:
  "MUX_SetSettlingTime hmux t = hmux\<lparr>settling_time_us := t\<rparr>
   \<and> settling_time_us (MUX_SetSettlingTime hmux t) = t
   \<and> config (MUX_SetSettlingTime hmux t) = config hmux
   \<and> current_channel (MUX_SetSettlingTime hmux t) = current_channel hmux
   \<and> is_enabled (MUX_SetSettlingTime hmux t) = is_enabled hmux
   \<and> run_call (Call_SetSettlingTime t) (hmux, w) = Some (MUX_SetSettlingTime hmux t, w)
   \<and> delay_us 0 w = w
   \<and> nop_count (snd (MUX_SelectChannel (MUX_SetSettlingTime hmux 0) channel w)) = nop_count w
   \<and> nop_count (snd (MUX_SelectChannel (MUX_SetSettlingTime hmux t) channel w)) =
       nop_count w + (if channel < 16 then settle_cycles w t else 0)"
proof -
  have fields: "MUX_SetSettlingTime hmux u = hmux\<lparr>settling_time_us := u\<rparr>" for u
    by (simp add: MUX_SetSettlingTime_def)
  have zero: "settle_cycles w 0 = 0"
    by (simp add: settle_cycles_def)
  then have no_delay: "delay_us 0 w = w"
    by (simp add: delay_us_eq)
  have nops: "nop_count (snd (MUX_SelectChannel (MUX_SetSettlingTime hmux u) channel w)) =
       nop_count w + (if channel < 16 then settle_cycles w u else 0)" for u
    by (simp add: fields MUX_SelectChannel_eq)
  show ?thesis
    using no_delay nops [of t] nops [of 0] zero by (simp add: fields)
qed

theorem C9_set_settling_time_witness:
  "settling_time_us (MUX_SetSettlingTime ready_handle 0) = 0
   \<and> is_enabled (MUX_SetSettlingTime ready_handle 0) = is_enabled ready_handle
   \<and> nop_count (snd (MUX_SelectChannel (MUX_SetSettlingTime ready_handle 0) 5 powered)) = 0
   \<and> nop_count (snd (MUX_SelectChannel (MUX_SetSettlingTime ready_handle 10) 5 powered)) = 240"
proof -
  have a: "settling_time_us (MUX_SetSettlingTime ready_handle 0) = 0"
    and b: "is_enabled (MUX_SetSettlingTime ready_handle 0) = is_enabled ready_handle"
    and c: "nop_count (snd (MUX_SelectChannel (MUX_SetSettlingTime ready_handle 0) 5 powered))
              = nop_count powered"
    using C9_set_settling_time [where hmux = ready_handle and t = 0 and channel = 5
        and w = powered]
    by blast+
  have "nop_count (snd (MUX_SelectChannel (MUX_SetSettlingTime ready_handle 10) 5 powered))
          = nop_count powered + (if (5 :: 8 word) < 16 then settle_cycles powered 10 else 0)"
    using C9_set_settling_time [where hmux = ready_handle and t = 10 and channel = 5
        and w = powered]
    by blast
  then have d: "nop_count (snd (MUX_SelectChannel (MUX_SetSettlingTime ready_handle 10) 5 powered))
          = 240"
    by (simp add: settle_cycles_def powered_def bench_def)
  have e: "nop_count powered = 0"
    by (simp add: powered_def bench_def)
  show ?thesis
    using a b c d e by simp
qed

subsection \<open>Reading an out-of-range channel\<close>



end
